theory Spec2Isabelle
  imports Main
begin

section \<open>Values, tables and errors\<close>

text \<open>
  The cells of a pandas table are modelled by integers, strings and one missing value
  \<open>NaV\<close>, which stands for both \<open>None\<close> and \<open>NaN\<close> (\<open>pd.isna\<close> is true on both).
  A row is a dictionary from column names to cells, kept as an association list in column
  order; a table is its list of column names with its list of rows. Column names of one
  table are pairwise different, as in every table pandas builds here.
\<close>

datatype val = IntV int | StrV string | NaV

type_synonym row = "(string \<times> val) list"

record table =
  columns :: "string list"
  rows :: "row list"

text \<open>Every \<open>raise\<close> of the source is a value of this type; \<open>Exception\<close> carries the message.\<close>

datatype error =
    KeyError string
  | AttributeError string
  | IndexError
  | FileNotFoundError
  | RecursionError
  | ValueError string
  | TypeError
  | MergeError
  | Exception string
  | DuplicationProblem "row list"
  | ExpectedSingleLine "row list"
  | ActionError string
  | ExceptionGroup string "error list"

definition isna :: "val \<Rightarrow> bool" where
  "isna v = (v = NaV)"

definition lookup :: "row \<Rightarrow> string \<Rightarrow> val" where
  "lookup r c = (case map_of r c of Some v \<Rightarrow> v | None \<Rightarrow> NaV)"

section \<open>Declarations: CoordComputer, Data, Database\<close>

text \<open>
  \<open>coords\<close> and \<open>dependencies\<close> are Python sets; they are lists here, enumerating the
  set in the order in which Python iterates over it. The \<open>compute\<close> callback maps the table of
  parameters to a table or raises. The runtime argument \<open>db\<close> of the callbacks is left out:
  callbacks are pure functions of their table, location and row arguments.
\<close>

record CoordComputer =
  coords :: "string list"
  dependencies :: "string list"
  compute :: "table \<Rightarrow> error + table"

type_synonym action = "val \<Rightarrow> row \<Rightarrow> error + val"

record Data =
  name :: string
  data_dependencies :: "string list"
  get_location :: "row \<Rightarrow> val"
  actions :: "(string \<times> action) list"

record Database =
  db_name :: string
  coord_computers :: "CoordComputer list"
  data :: "(string \<times> Data) list"

text \<open>What \<open>declare\<close> can be handed: a coordinate computer, a Data, or anything else.\<close>

datatype dbobject = CC CoordComputer | D Data | Other string

definition Database_init :: "string \<Rightarrow> Database" where
  "Database_init n = \<lparr>db_name = n, coord_computers = [], data = []\<rparr>"

fun Database_declare :: "Database \<Rightarrow> dbobject \<Rightarrow> error + Database" where
  "Database_declare db (CC c) = Inr (db\<lparr>coord_computers := coord_computers db @ [c]\<rparr>)"
| "Database_declare db (D d) =
     (if name d \<in> set (map fst (data db))
      then Inl (Exception (''Data '' @ name d @ '' already exists''))
      else Inr (db\<lparr>data := data db @ [(name d, d)]\<rparr>))"
| "Database_declare db (Other ty) =
     Inl (Exception (''Cannot declare object of type '' @ ty))"

fun declare_all :: "Database \<Rightarrow> dbobject list \<Rightarrow> error + Database" where
  "declare_all db [] = Inr db"
| "declare_all db (x # xs) =
     (case Database_declare db x of Inl e \<Rightarrow> Inl e | Inr db' \<Rightarrow> declare_all db' xs)"

text \<open>The objects \<open>join\<close> declares, in the order of its two nested loops.\<close>

definition join_objects :: "Database list \<Rightarrow> dbobject list" where
  "join_objects dbs =
     concat (map (\<lambda>db. map CC (coord_computers db) @ map (\<lambda>p. D (snd p)) (data db)) dbs)"

fun intercalate :: "string \<Rightarrow> string list \<Rightarrow> string" where
  "intercalate sep [] = []"
| "intercalate sep [x] = x"
| "intercalate sep (x # y # ys) = x @ sep @ intercalate sep (y # ys)"

definition Database_join :: "Database list \<Rightarrow> string option \<Rightarrow> error + Database" where
  "Database_join dbs new_name =
     (let n = (case new_name of
                 None \<Rightarrow> ''Joined('' @ intercalate '', '' (map db_name dbs) @ '')''
               | Some n \<Rightarrow> n)
      in declare_all (Database_init n) (join_objects dbs))"

section \<open>DatabaseInstance\<close>

record DatabaseInstance =
  db :: Database
  inst_coords :: "(string \<times> CoordComputer) list"
  continue_on_error :: bool

text \<open>
  The two loops of \<open>__init__\<close>: the inner one over the coordinates of one computer, the
  outer one over the computers. The dictionary \<open>self.coords\<close> is the association list built.
\<close>

fun index_coords ::
  "(string \<times> CoordComputer) list \<Rightarrow> CoordComputer \<Rightarrow> string list
     \<Rightarrow> error + (string \<times> CoordComputer) list" where
  "index_coords m cc [] = Inr m"
| "index_coords m cc (c # cs) =
     (if c \<in> set (map fst m)
      then Inl (Exception (''Coordinate '' @ c @ '' has two computers''))
      else index_coords (m @ [(c, cc)]) cc cs)"

fun index_computers ::
  "(string \<times> CoordComputer) list \<Rightarrow> CoordComputer list
     \<Rightarrow> error + (string \<times> CoordComputer) list" where
  "index_computers m [] = Inr m"
| "index_computers m (cc # ccs) =
     (case index_coords m cc (coords cc) of
        Inl e \<Rightarrow> Inl e
      | Inr m' \<Rightarrow> index_computers m' ccs)"

definition Database_initialize :: "Database \<Rightarrow> error + DatabaseInstance" where
  "Database_initialize d =
     (case index_computers [] (coord_computers d) of
        Inl e \<Rightarrow> Inl e
      | Inr m \<Rightarrow> Inr \<lparr>db = d, inst_coords = m, continue_on_error = False\<rparr>)"


section \<open>The table operations the resolver uses\<close>

text \<open>
  The pandas operations of the source, on the tables above. A cell that a row does not
  have reads as missing, which is how \<open>pd.concat\<close> fills the columns a frame lacks.
\<close>

definition project :: "string list \<Rightarrow> row \<Rightarrow> row" where
  "project cs r = map (\<lambda>c. (c, lookup r c)) cs"

text \<open>\<open>df[cols]\<close>: a column that the table does not have is a \<open>KeyError\<close>.\<close>

definition select_columns :: "table \<Rightarrow> string list \<Rightarrow> error + table" where
  "select_columns t cs =
     (case filter (\<lambda>c. c \<notin> set (columns t)) cs of
        [] \<Rightarrow> Inr \<lparr>columns = cs, rows = map (project cs) (rows t)\<rparr>
      | c # _ \<Rightarrow> Inl (KeyError c))"

text \<open>Keeps the first occurrence of every element, in the order of the list.\<close>

definition unique :: "'a list \<Rightarrow> 'a list" where
  "unique xs = rev (remdups (rev xs))"

text \<open>
  \<open>drop_duplicates\<close> returns a copy of a frame that has no column or no row
  (\<open>DataFrame.empty\<close>), so a frame of \<open>k\<close> rows and no column keeps its \<open>k\<close> rows.
\<close>

definition drop_duplicates :: "table \<Rightarrow> table" where
  "drop_duplicates t =
     (if columns t = [] \<or> rows t = [] then t
      else t\<lparr>rows := unique (map (project (columns t)) (rows t))\<rparr>)"

text \<open>\<open>tmp[k] = v\<close> with a scalar \<open>v\<close>: overwrites the column or appends it.\<close>

definition assign_const :: "table \<Rightarrow> string \<Rightarrow> val \<Rightarrow> table" where
  "assign_const t k v =
     (let cs = (if k \<in> set (columns t) then columns t else columns t @ [k])
      in \<lparr>columns = cs,
          rows = map (\<lambda>r. map (\<lambda>c. (c, if c = k then v else lookup r c)) cs) (rows t)\<rparr>)"

text \<open>\<open>pd.concat\<close>: the union of the columns in order of appearance, missing cells filled.\<close>

definition pd_concat :: "table list \<Rightarrow> error + table" where
  "pd_concat ts =
     (if ts = [] then Inl (ValueError ''No objects to concatenate'')
      else let cs = unique (concat (map columns ts))
           in Inr \<lparr>columns = cs, rows = map (project cs) (concat (map rows ts))\<rparr>)"

text \<open>
  \<open>pd.merge\<close>, inner on the key columns \<open>on\<close>, and cross when \<open>on\<close> is empty. Columns
  of both sides that are not keys get the suffixes \<open>_x\<close> and \<open>_y\<close>; a suffix that produces
  a column name twice is a \<open>MergeError\<close>. The rows follow the left table, and for one left
  row the right table.
\<close>

definition merge_columns :: "table \<Rightarrow> table \<Rightarrow> string list \<Rightarrow> string list" where
  "merge_columns left right on =
     (let overlap = filter (\<lambda>c. c \<in> set (columns right) \<and> c \<notin> set on) (columns left)
      in map (\<lambda>c. if c \<in> set overlap then c @ ''_x'' else c) (columns left)
         @ map (\<lambda>c. if c \<in> set overlap then c @ ''_y'' else c)
             (filter (\<lambda>c. c \<notin> set on) (columns right)))"

definition merge_row :: "table \<Rightarrow> table \<Rightarrow> string list \<Rightarrow> row \<Rightarrow> row \<Rightarrow> row" where
  "merge_row left right on l r =
     (let overlap = filter (\<lambda>c. c \<in> set (columns right) \<and> c \<notin> set on) (columns left)
      in map (\<lambda>c. (if c \<in> set overlap then c @ ''_x'' else c, lookup l c)) (columns left)
         @ map (\<lambda>c. (if c \<in> set overlap then c @ ''_y'' else c, lookup r c))
             (filter (\<lambda>c. c \<notin> set on) (columns right)))"

definition merge_rows :: "table \<Rightarrow> table \<Rightarrow> string list \<Rightarrow> row list" where
  "merge_rows left right on =
     concat (map (\<lambda>l. map (merge_row left right on l)
                        (filter (\<lambda>r. map (lookup r) on = map (lookup l) on) (rows right)))
                 (rows left))"

definition merge :: "table \<Rightarrow> table \<Rightarrow> string list \<Rightarrow> error + table" where
  "merge left right on =
     (case filter (\<lambda>c. c \<notin> set (columns left) \<or> c \<notin> set (columns right)) on of
        c # _ \<Rightarrow> Inl (KeyError c)
      | [] \<Rightarrow>
          if \<not> distinct (merge_columns left right on) then Inl MergeError
          else Inr \<lparr>columns = merge_columns left right on,
                    rows = merge_rows left right on\<rparr>)"

subsection \<open>Comparisons of cells\<close>

text \<open>
  \<open>==\<close> of a column with a scalar: a missing cell or a missing scalar compares false.
  The order comparisons are false on a missing side and raise \<open>TypeError\<close> between an
  integer and a string; strings compare by code point.
\<close>

definition pd_eq :: "val \<Rightarrow> val \<Rightarrow> bool" where
  "pd_eq a b = (a \<noteq> NaV \<and> b \<noteq> NaV \<and> a = b)"

fun str_less :: "string \<Rightarrow> string \<Rightarrow> bool" where
  "str_less [] [] = False"
| "str_less [] (y # ys) = True"
| "str_less (x # xs) [] = False"
| "str_less (x # xs) (y # ys) =
     ((of_char x :: nat) < of_char y \<or> (x = y \<and> str_less xs ys))"

fun pd_lt :: "val \<Rightarrow> val \<Rightarrow> error + bool" where
  "pd_lt NaV _ = Inr False"
| "pd_lt _ NaV = Inr False"
| "pd_lt (IntV a) (IntV b) = Inr (a < b)"
| "pd_lt (StrV a) (StrV b) = Inr (str_less a b)"
| "pd_lt _ _ = Inl TypeError"

fun pd_ge :: "val \<Rightarrow> val \<Rightarrow> error + bool" where
  "pd_ge NaV _ = Inr False"
| "pd_ge _ NaV = Inr False"
| "pd_ge (IntV a) (IntV b) = Inr (b \<le> a)"
| "pd_ge (StrV a) (StrV b) = Inr (\<not> str_less a b)"
| "pd_ge _ _ = Inl TypeError"

text \<open>
  \<open>df.loc[mask]\<close> with the mask computed row by row; the first row on which the
  computation raises decides the error.
\<close>

fun select_rows :: "(row \<Rightarrow> error + bool) \<Rightarrow> row list \<Rightarrow> error + row list" where
  "select_rows p [] = Inr []"
| "select_rows p (r # rs) =
     (case p r of
        Inl e \<Rightarrow> Inl e
      | Inr b \<Rightarrow>
          (case select_rows p rs of
             Inl e \<Rightarrow> Inl e
           | Inr rs' \<Rightarrow> Inr (if b then r # rs' else rs')))"


section \<open>Filters\<close>

text \<open>
  The values of a selection dictionary, in the order \<open>_filter\<close> tests them: a tuple of
  allowed values, a \<open>slice\<close> with its \<open>start\<close>, \<open>stop\<close> and \<open>step\<close> (each may be
  \<open>None\<close>), a callable, and any other value, compared with \<open>==\<close>: a scalar, or a list
  of scalars. The dictionary is an association list in insertion order.
\<close>

datatype selector =
    Allowed "val list"
  | Slice "val option" "val option" "val option"
  | Pred "val \<Rightarrow> error + bool"
  | Exact val
  | ListValue "val list"

type_synonym selection = "(string \<times> selector) list"

text \<open>Python's truth value of a slice field: \<open>None\<close>, \<open>0\<close> and the empty string are false.\<close>

fun truthy :: "val option \<Rightarrow> bool" where
  "truthy None = False"
| "truthy (Some (IntV n)) = (n \<noteq> 0)"
| "truthy (Some (StrV s)) = (s \<noteq> [])"
| "truthy (Some NaV) = True"

text \<open>
  \<open>df[s] >= v.start if v.start else True\<close> and \<open>df[s] < v.stop if v.stop else True\<close>,
  on one cell.
\<close>

definition start_cond :: "val option \<Rightarrow> val \<Rightarrow> error + bool" where
  "start_cond start x =
     (case start of None \<Rightarrow> Inr True
      | Some s \<Rightarrow> if truthy (Some s) then pd_ge x s else Inr True)"

definition end_cond :: "val option \<Rightarrow> val \<Rightarrow> error + bool" where
  "end_cond stop x =
     (case stop of None \<Rightarrow> Inr True
      | Some e \<Rightarrow> if truthy (Some e) then pd_lt x e else Inr True)"

text \<open>
  One entry of the dictionary on a table that has the column. For a slice, the
  \<open>Exception("step not handled")\<close> of the source is built and not raised, so the step is
  ignored; when neither bound is used the mask is the scalar \<open>True\<close>, which \<open>df.loc\<close>
  rejects. A column compared with a list is compared cell by cell, and the lengths must
  agree.
\<close>

fun apply_selector :: "string \<Rightarrow> selector \<Rightarrow> table \<Rightarrow> error + table" where
  "apply_selector s (Allowed vs) df =
     Inr (df\<lparr>rows := filter (\<lambda>r. lookup r s \<in> set vs) (rows df)\<rparr>)"
| "apply_selector s (Slice start stop step) df =
     (if \<not> truthy start \<and> \<not> truthy stop then Inl (KeyError ''True'')
      else case select_rows
                  (\<lambda>r. case start_cond start (lookup r s) of
                          Inl e \<Rightarrow> Inl e
                        | Inr a \<Rightarrow> (case end_cond stop (lookup r s) of
                                      Inl e \<Rightarrow> Inl e
                                    | Inr b \<Rightarrow> Inr (a \<and> b)))
                  (rows df) of
             Inl e \<Rightarrow> Inl e
           | Inr rs \<Rightarrow> Inr (df\<lparr>rows := rs\<rparr>))"
| "apply_selector s (Pred p) df =
     (case select_rows (\<lambda>r. p (lookup r s)) (rows df) of
        Inl e \<Rightarrow> Inl e
      | Inr rs \<Rightarrow> Inr (df\<lparr>rows := rs\<rparr>))"
| "apply_selector s (Exact v) df =
     Inr (df\<lparr>rows := filter (\<lambda>r. pd_eq (lookup r s) v) (rows df)\<rparr>)"
| "apply_selector s (ListValue vs) df =
     (if length vs \<noteq> length (rows df) then Inl (ValueError ''Lengths must match to compare'')
      else Inr (df\<lparr>rows := map fst (filter (\<lambda>rv. pd_eq (lookup (fst rv) s) (snd rv))
                                            (zip (rows df) vs))\<rparr>))"

fun filter_df :: "table \<Rightarrow> selection \<Rightarrow> error + table" where
  "filter_df df [] = Inr df"
| "filter_df df ((s, v) # sel) =
     (if s \<in> set (columns df)
      then (case apply_selector s v df of
              Inl e \<Rightarrow> Inl e
            | Inr df' \<Rightarrow> filter_df df' sel)
      else filter_df df sel)"

section \<open>Coordinate computers made from functions\<close>

text \<open>
  \<open>CoordComputer.from_function\<close> with \<open>vectorized=False\<close>, \<open>adapt_return=True\<close> and no
  \<open>database_arg\<close>: the function \<open>f\<close> is called once for every row of the parameter table,
  with the row as keyword arguments; its table must have the columns \<open>coords\<close>; the
  parameters are written into it as columns and the tables are concatenated.
\<close>

definition new_f :: "string list \<Rightarrow> (row \<Rightarrow> error + table) \<Rightarrow> row \<Rightarrow> error + table" where
  "new_f cs f d =
     (case f d of
        Inl e \<Rightarrow> Inl e
      | Inr res \<Rightarrow>
          if \<not> set cs \<subseteq> set (columns res) then Inl (Exception ''Problem in coord definition'')
          else Inr res)"

fun compute_rows ::
  "string list \<Rightarrow> (row \<Rightarrow> error + table) \<Rightarrow> row list \<Rightarrow> error + table list" where
  "compute_rows cs f [] = Inr []"
| "compute_rows cs f (d # ds) =
     (case new_f cs f d of
        Inl e \<Rightarrow> Inl e
      | Inr tmp \<Rightarrow>
          (case compute_rows cs f ds of
             Inl e \<Rightarrow> Inl e
           | Inr tmp_dfs \<Rightarrow> Inr (fold (\<lambda>kv t. assign_const t (fst kv) (snd kv)) d tmp # tmp_dfs)))"

definition from_function ::
  "string list \<Rightarrow> string list \<Rightarrow> (row \<Rightarrow> error + table) \<Rightarrow> CoordComputer" where
  "from_function cs deps f =
     \<lparr>coords = cs, dependencies = deps,
      compute = (\<lambda>df. case compute_rows cs f (map (project (columns df)) (rows df)) of
                        Inl e \<Rightarrow> Inl e
                      | Inr tmp_dfs \<Rightarrow> pd_concat tmp_dfs)\<rparr>"

section \<open>Resolution of coordinates\<close>

text \<open>
  \<open>_get_dependencies\<close>. The first argument is the number of nested calls that Python's
  recursion limit still allows: on a cyclic registry the source ends in a
  \<open>RecursionError\<close>.
\<close>

fun get_dependencies ::
  "nat \<Rightarrow> (string \<times> CoordComputer) list \<Rightarrow> string list \<Rightarrow> error + string list" where
  "get_dependencies 0 cmap names = Inl RecursionError"
| "get_dependencies (Suc k) cmap [] = Inr []"
| "get_dependencies (Suc k) cmap (n # ns) =
     (case map_of cmap n of
        None \<Rightarrow> Inl (KeyError n)
      | Some cc \<Rightarrow>
          (case get_dependencies k cmap (dependencies cc) of
             Inl e \<Rightarrow> Inl e
           | Inr ds \<Rightarrow>
               (case get_dependencies (Suc k) cmap ns of
                  Inl e \<Rightarrow> Inl e
                | Inr rest \<Rightarrow> Inr (n # ds @ rest))))"

text \<open>The test of line 211 and the body of the \<open>if\<close>, for one computer.\<close>

definition applicable :: "string list \<Rightarrow> table \<Rightarrow> CoordComputer \<Rightarrow> bool" where
  "applicable all_names df cc =
     (set (coords cc) \<inter> set all_names \<noteq> {}
      \<and> set (dependencies cc) \<subseteq> set (columns df)
      \<and> \<not> set (coords cc) \<subseteq> set (columns df))"

definition join_computer :: "selection \<Rightarrow> table \<Rightarrow> CoordComputer \<Rightarrow> error + table" where
  "join_computer sel df cc =
     (case select_columns df (dependencies cc) of
        Inl e \<Rightarrow> Inl e
      | Inr deps_df \<Rightarrow>
          (case compute cc (drop_duplicates deps_df) of
             Inl e \<Rightarrow> Inl e
           | Inr computed_df \<Rightarrow>
               (case filter_df computed_df sel of
                  Inl e \<Rightarrow> Inl e
                | Inr tmp_df \<Rightarrow> merge df tmp_df (dependencies cc))))"

fun scan_computers ::
  "string list \<Rightarrow> selection \<Rightarrow> CoordComputer list \<Rightarrow> table \<Rightarrow> error + table" where
  "scan_computers all_names sel [] df = Inr df"
| "scan_computers all_names sel (cc # ccs) df =
     (if applicable all_names df cc
      then (case join_computer sel df cc of
              Inl e \<Rightarrow> Inl e
            | Inr df' \<Rightarrow> scan_computers all_names sel ccs df')
      else scan_computers all_names sel ccs df)"

text \<open>
  The \<open>while\<close> loop. It need not terminate, so it runs on fuel, one unit for each scan of
  the computers; \<open>None\<close> means that the fuel did not suffice.
\<close>

fun join_loop ::
  "nat \<Rightarrow> string list \<Rightarrow> selection \<Rightarrow> CoordComputer list \<Rightarrow> table
     \<Rightarrow> (error + table) option" where
  "join_loop fuel all_names sel ccs df =
     (if set all_names \<subseteq> set (columns df) then Some (Inr df)
      else case fuel of
             0 \<Rightarrow> None
           | Suc k \<Rightarrow>
               (case scan_computers all_names sel ccs df of
                  Inl e \<Rightarrow> Some (Inl e)
                | Inr df' \<Rightarrow> join_loop k all_names sel ccs df'))"

subsection \<open>The collapse to the requested coordinates\<close>

text \<open>
  \<open>~pd.isna(x)\<close> on a scalar: \<open>pd.isna\<close> returns a Python \<open>bool\<close>, whose bitwise
  complement is the integer \<open>-2\<close> or \<open>-1\<close>, and \<open>and\<close> takes its truth value.
\<close>

definition py_invert :: "bool \<Rightarrow> int" where
  "py_invert b = (if b then - 2 else - 1)"

definition col_unique :: "row list \<Rightarrow> string \<Rightarrow> bool" where
  "col_unique rs col =
     ((\<forall>r \<in> set rs. pd_eq (lookup r col) (lookup (hd rs) col))
      \<and> py_invert (isna (lookup (hd rs) col)) \<noteq> 0)"

text \<open>
  \<open>keep_unique_columns\<close> on one group: returns the first row on the columns kept, and
  \<open>cols_to_remove\<close> with the other columns appended. \<open>iat[0]\<close> on a frame without rows
  raises.
\<close>

definition keep_unique_columns :: "string list \<Rightarrow> table \<Rightarrow> error + table \<times> string list" where
  "keep_unique_columns cols_to_remove df =
     (if rows df = [] \<and> columns df \<noteq> [] then Inl IndexError
      else let cols = filter (col_unique (rows df)) (columns df)
           in Inr (\<lparr>columns = cols, rows = map (project cols) (take 1 (rows df))\<rparr>,
                   cols_to_remove @ filter (\<lambda>c. \<not> col_unique (rows df) c) (columns df)))"

text \<open>
  \<open>groupby(list(names))\<close>: the keys are the tuples of values on \<open>names\<close> without a
  missing value, each once; a group is the rows of one key. pandas lists the groups by
  sorted key, or in the order of the table when every group has one row; here they are
  in order of first appearance, and no statement below depends on the order of the rows.
\<close>

definition group_keys :: "string list \<Rightarrow> table \<Rightarrow> val list list" where
  "group_keys names df =
     unique (filter (\<lambda>k. NaV \<notin> set k) (map (\<lambda>r. map (lookup r) names) (rows df)))"

definition group_of :: "string list \<Rightarrow> table \<Rightarrow> val list \<Rightarrow> table" where
  "group_of names df k =
     \<lparr>columns = columns df,
      rows = filter (\<lambda>r. map (lookup r) names = k) (map (project (columns df)) (rows df))\<rparr>"

fun apply_groups ::
  "string list \<Rightarrow> table list \<Rightarrow> error + table list \<times> string list" where
  "apply_groups cols_to_remove [] = Inr ([], cols_to_remove)"
| "apply_groups cols_to_remove (g # gs) =
     (case keep_unique_columns cols_to_remove g of
        Inl e \<Rightarrow> Inl e
      | Inr (t, cols_to_remove') \<Rightarrow>
          (case apply_groups cols_to_remove' gs of
             Inl e \<Rightarrow> Inl e
           | Inr (ts, cols_to_remove'') \<Rightarrow> Inr (t # ts, cols_to_remove'')))"

text \<open>
  Lines 241 to 245: the groups, \<open>keep_unique_columns\<close> on each, the concatenation of
  what it returns (the table without rows, on the columns of \<open>df\<close>, when there is no
  group), and the removal of every column in \<open>cols_to_remove\<close>.
\<close>

definition collapse :: "string list \<Rightarrow> table \<Rightarrow> error + table" where
  "collapse names df =
     (if names = [] then Inl (Exception ''Strange'')
      else case filter (\<lambda>c. c \<notin> set (columns df)) names of
        c # _ \<Rightarrow> Inl (KeyError c)
      | [] \<Rightarrow>
         (case apply_groups [] (map (group_of names df) (group_keys names df)) of
            Inl e \<Rightarrow> Inl e
          | Inr (ts, cols_to_remove) \<Rightarrow>
              (case (if ts = [] then Inr \<lparr>columns = columns df, rows = []\<rparr> else pd_concat ts) of
                 Inl e \<Rightarrow> Inl e
               | Inr res \<Rightarrow>
                   select_columns res (filter (\<lambda>col. col \<notin> set cols_to_remove) (columns res)))))"

text \<open>
  \<open>_get_coords_impl\<close>. \<open>names\<close> lists the frozenset of requested names in its iteration
  order; \<open>limit\<close> is the recursion limit and \<open>fuel\<close> the fuel of the loop. Of the
  memoisation of \<open>functools.cache\<close> only the hashing of the arguments is modelled, in
  \<open>get_coords\<close> below: the function has no effect besides those of the callbacks, which
  are pure here.
\<close>

definition get_coords_impl ::
  "nat \<Rightarrow> nat \<Rightarrow> DatabaseInstance \<Rightarrow> string list \<Rightarrow> selection
     \<Rightarrow> (error + table) option" where
  "get_coords_impl limit fuel inst names sel =
     (case get_dependencies limit (inst_coords inst) names of
        Inl e \<Rightarrow> Some (Inl e)
      | Inr all_names \<Rightarrow>
          (case join_loop fuel all_names sel (coord_computers (db inst))
                  \<lparr>columns = [], rows = [[]]\<rparr> of
             None \<Rightarrow> None
           | Some (Inl e) \<Rightarrow> Some (Inl e)
           | Some (Inr df) \<Rightarrow> Some (collapse names df)))"

text \<open>
  \<open>get_coords\<close> hands \<open>frozendict(selection_dict)\<close> to \<open>_get_coords_impl\<close>, which
  \<open>functools.cache\<close> wraps: the call hashes the dictionary, hence every value in it,
  before the body runs, and an unhashable value is a \<open>TypeError\<close>. Integers, strings,
  \<open>None\<close>, tuples of them and functions are hashable, a list is not, and a \<open>slice\<close> is
  hashable from Python 3.12 on only. \<open>Py_3_11\<close> stands for the versions before 3.12.
\<close>

datatype python_version = Py_3_11 | Py_3_12

fun hashable :: "python_version \<Rightarrow> selector \<Rightarrow> bool" where
  "hashable py (Allowed vs) = True"
| "hashable py (Slice start stop step) = (py = Py_3_12)"
| "hashable py (Pred p) = True"
| "hashable py (Exact v) = True"
| "hashable py (ListValue vs) = False"

text \<open>
  \<open>get_coords\<close> with \<open>single=False\<close>: the names become a frozenset; \<open>sel\<close> is
  the selection dictionary with the keyword arguments merged into it.
\<close>

definition get_coords ::
  "python_version \<Rightarrow> nat \<Rightarrow> nat \<Rightarrow> DatabaseInstance \<Rightarrow> string list \<Rightarrow> selection
     \<Rightarrow> (error + table) option" where
  "get_coords py limit fuel inst names sel =
     (if \<exists>kv \<in> set sel. \<not> hashable py (snd kv) then Some (Inl TypeError)
      else get_coords_impl limit fuel inst (remdups names) sel)"

section \<open>Locations and actions\<close>

text \<open>
  \<open>get_locations\<close>: the coordinates of the dependencies of the Data, the column
  \<open>location\<close> computed row by row, and the rows without a location dropped.
\<close>

definition set_location :: "(row \<Rightarrow> val) \<Rightarrow> table \<Rightarrow> table" where
  "set_location loc_f coords_df =
     (let cs = (if ''location'' \<in> set (columns coords_df) then columns coords_df
                else columns coords_df @ [''location''])
      in \<lparr>columns = cs,
          rows = map (\<lambda>r. map (\<lambda>c. (c, if c = ''location''
                                          then loc_f (project (columns coords_df) r)
                                          else lookup r c)) cs)
                     (rows coords_df)\<rparr>)"

definition get_locations ::
  "python_version \<Rightarrow> nat \<Rightarrow> nat \<Rightarrow> DatabaseInstance \<Rightarrow> string \<Rightarrow> selection \<Rightarrow> (error + table) option" where
  "get_locations py limit fuel inst nm sel =
     (case map_of (data (db inst)) nm of
        None \<Rightarrow> Some (Inl (KeyError nm))
      | Some d \<Rightarrow>
          (case get_coords py limit fuel inst (data_dependencies d) sel of
             None \<Rightarrow> None
           | Some (Inl e) \<Rightarrow> Some (Inl e)
           | Some (Inr coords_df) \<Rightarrow>
               (let located = set_location (get_location d) coords_df
                in Some (Inr (located\<lparr>rows :=
                     filter (\<lambda>r. \<not> isna (lookup r ''location'')) (rows located)\<rparr>)))))"

definition extract_single :: "table \<Rightarrow> string \<Rightarrow> error + val" where
  "extract_single df col =
     (case rows df of
        [r] \<Rightarrow> if col \<in> set (columns df) then Inr (lookup r col) else Inl (KeyError col)
      | _ \<Rightarrow> Inl (ExpectedSingleLine (rows df)))"

text \<open>
  The attributes that the body of \<open>class DatabaseInstance\<close> defines. An attribute that
  the class does not have is an \<open>AttributeError\<close> when the expression is evaluated.
\<close>

definition DatabaseInstance_attributes :: "string list" where
  "DatabaseInstance_attributes =
     [''__init__'', ''_get_dependencies'', ''_filter'', ''get_coords'', ''_get_coords_impl'',
      ''get_locations'', ''_extract_single'', ''get_single_location'', ''run_action'',
      ''compute'', ''compute_single'', ''__str__'']"

definition class_attribute :: "string \<Rightarrow> error + string" where
  "class_attribute a =
     (if a \<in> set DatabaseInstance_attributes then Inr a else Inl (AttributeError a))"

text \<open>
  \<open>get_single_location\<close> evaluates \<open>DatabaseInstance._extract_unique\<close> before the
  argument of the call. The only extractor the class defines is \<open>_extract_single\<close>.
\<close>

definition get_single_location ::
  "python_version \<Rightarrow> nat \<Rightarrow> nat \<Rightarrow> DatabaseInstance \<Rightarrow> string \<Rightarrow> selection \<Rightarrow> (error + val) option" where
  "get_single_location py limit fuel inst nm sel =
     (case class_attribute ''_extract_unique'' of
        Inl e \<Rightarrow> Some (Inl e)
      | Inr _ \<Rightarrow>
          (case get_locations py limit fuel inst nm sel of
             None \<Rightarrow> None
           | Some (Inl e) \<Rightarrow> Some (Inl e)
           | Some (Inr locs) \<Rightarrow> Some (extract_single locs ''location'')))"

subsection \<open>run_action\<close>

text \<open>
  The lookup \<open>self.db.data[target].actions[action]\<close> happens inside the \<open>try\<close> of the
  loop, so a missing action is a failure of the row like any other.
\<close>

definition find_action :: "DatabaseInstance \<Rightarrow> string \<Rightarrow> string \<Rightarrow> error + action" where
  "find_action inst target act =
     (case map_of (data (db inst)) target of
        None \<Rightarrow> Inl (KeyError target)
      | Some d \<Rightarrow>
          (case map_of (actions d) act of
             None \<Rightarrow> Inl (KeyError act)
           | Some a \<Rightarrow> Inr a))"

definition drop_location :: "row \<Rightarrow> row" where
  "drop_location r = filter (\<lambda>kv. fst kv \<noteq> ''location'') r"

text \<open>
  The state of the loop over the rows: the results, the errors collected, and the calls
  of the action made so far (location and coordinates of each), which stand for the effects
  of the callback.
\<close>

record loop_state =
  results :: "val list"
  errors :: "error list"
  calls :: "(val \<times> row) list"

text \<open>
  The loop returns \<open>Inl\<close> when an exception leaves it, in fail-fast mode. The notes added
  to the exceptions and the progress bar are not modelled.
\<close>

fun action_loop ::
  "bool \<Rightarrow> error + action \<Rightarrow> row list \<Rightarrow> loop_state \<Rightarrow> (error + unit) \<times> loop_state" where
  "action_loop coe act [] st = (Inr (), st)"
| "action_loop coe act (r # rs) st =
     (case act of
        Inl e \<Rightarrow>
          if \<not> coe then (Inl e, st)
          else action_loop coe act rs (st\<lparr>errors := errors st @ [e]\<rparr>)
      | Inr a \<Rightarrow>
          (let st' = st\<lparr>calls := calls st @ [(lookup r ''location'', drop_location r)]\<rparr>
           in case a (lookup r ''location'') (drop_location r) of
                Inl e \<Rightarrow>
                  if \<not> coe then (Inl e, st')
                  else action_loop coe act rs (st'\<lparr>errors := errors st' @ [e]\<rparr>)
              | Inr v \<Rightarrow> action_loop coe act rs (st'\<lparr>results := results st' @ [v]\<rparr>)))"

text \<open>
  \<open>locs[action] = results\<close>: a new last column, or the column of that name overwritten.
  For a table of one row the source first assigns an empty column and then writes
  \<open>results[0]\<close> into it with \<open>iat\<close>, to the same effect.
\<close>

definition set_column :: "table \<Rightarrow> string \<Rightarrow> val list \<Rightarrow> table" where
  "set_column t k vs =
     (let cs = (if k \<in> set (columns t) then columns t else columns t @ [k])
      in \<lparr>columns = cs,
          rows = map (\<lambda>(r, v). map (\<lambda>c. (c, if c = k then v else lookup r c)) cs)
                     (zip (rows t) vs)\<rparr>)"

datatype outcome = Frame table | Scalar val

record action_run =
  returned :: "error + outcome"
  action_calls :: "(val \<times> row) list"

definition duplicated_rows :: "table \<Rightarrow> row list" where
  "duplicated_rows locs =
     filter (\<lambda>r. 1 < count_list (map (\<lambda>r. lookup r ''location'') (rows locs))
                                 (lookup r ''location''))
            (rows locs)"

definition finish :: "bool \<Rightarrow> table \<Rightarrow> string \<Rightarrow> error + outcome" where
  "finish single locs col =
     (if single
      then (case extract_single locs col of Inl e \<Rightarrow> Inl e | Inr v \<Rightarrow> Inr (Scalar v))
      else Inr (Frame locs))"

text \<open>\<open>run_action\<close> from line 272 on, with \<open>locs\<close> the table \<open>get_locations\<close> returned.\<close>

definition run_action_on ::
  "DatabaseInstance \<Rightarrow> string \<Rightarrow> string \<Rightarrow> bool \<Rightarrow> table \<Rightarrow> action_run" where
  "run_action_on inst act target single locs =
     (if \<not> distinct (map (\<lambda>r. lookup r ''location'') (rows locs))
      then \<lparr>returned = Inl (DuplicationProblem (duplicated_rows locs)), action_calls = []\<rparr>
      else if act \<noteq> ''location''
      then (case action_loop (continue_on_error inst) (find_action inst target act)
                   (map (project (columns locs)) (rows locs))
                   \<lparr>results = [], errors = [], calls = []\<rparr> of
              (Inl e, st) \<Rightarrow> \<lparr>returned = Inl e, action_calls = calls st\<rparr>
            | (Inr _, st) \<Rightarrow>
                if errors st \<noteq> []
                then \<lparr>returned = Inl (ExceptionGroup (''During '' @ act @ '' for '' @ target)
                                         (errors st)),
                      action_calls = calls st\<rparr>
                else \<lparr>returned = finish single (set_column locs act (results st)) act,
                      action_calls = calls st\<rparr>)
      else \<lparr>returned = finish single locs act, action_calls = []\<rparr>)"

definition run_action ::
  "python_version \<Rightarrow> nat \<Rightarrow> nat \<Rightarrow> DatabaseInstance \<Rightarrow> string \<Rightarrow> string \<Rightarrow> selection \<Rightarrow> bool
     \<Rightarrow> action_run option" where
  "run_action py limit fuel inst act target sel single =
     (case get_locations py limit fuel inst target sel of
        None \<Rightarrow> None
      | Some (Inl e) \<Rightarrow> Some \<lparr>returned = Inl e, action_calls = []\<rparr>
      | Some (Inr locs) \<Rightarrow> Some (run_action_on inst act target single locs))"

definition compute_data ::
  "python_version \<Rightarrow> nat \<Rightarrow> nat \<Rightarrow> DatabaseInstance \<Rightarrow> string \<Rightarrow> selection \<Rightarrow> action_run option" where
  "compute_data py limit fuel inst nm sel = run_action py limit fuel inst ''compute'' nm sel False"

definition compute_single ::
  "python_version \<Rightarrow> nat \<Rightarrow> nat \<Rightarrow> DatabaseInstance \<Rightarrow> string \<Rightarrow> selection \<Rightarrow> action_run option" where
  "compute_single py limit fuel inst nm sel = run_action py limit fuel inst ''compute'' nm sel True"


section \<open>The cache decorator\<close>

text \<open>
  A path is its parent directory and its final component; \<open>stem\<close> and \<open>suffix\<close> split
  the final component at its last dot as \<open>pathlib\<close> does (a leading or a trailing dot
  starts no suffix). The file system is the association list of the files that exist with
  their contents; directories are not modelled.
\<close>

record path =
  parent :: string
  pname :: string

fun last_dot :: "string \<Rightarrow> nat option" where
  "last_dot [] = None"
| "last_dot (c # cs) =
     (case last_dot cs of
        Some i \<Rightarrow> Some (Suc i)
      | None \<Rightarrow> if c = CHR ''.'' then Some 0 else None)"

definition suffix :: "path \<Rightarrow> string" where
  "suffix p =
     (case last_dot (pname p) of
        None \<Rightarrow> []
      | Some i \<Rightarrow> if 0 < i \<and> Suc i < length (pname p) then drop i (pname p) else [])"

definition stem :: "path \<Rightarrow> string" where
  "stem p =
     (case last_dot (pname p) of
        None \<Rightarrow> pname p
      | Some i \<Rightarrow> if 0 < i \<and> Suc i < length (pname p) then take i (pname p) else pname p)"

type_synonym 'o fs = "(path \<times> 'o) list"

definition exists_path :: "'o fs \<Rightarrow> path \<Rightarrow> bool" where
  "exists_path files p = (map_of files p \<noteq> None)"

definition write_file :: "'o fs \<Rightarrow> path \<Rightarrow> 'o \<Rightarrow> 'o fs" where
  "write_file files p x = (p, x) # filter (\<lambda>kv. fst kv \<noteq> p) files"

definition remove_file :: "'o fs \<Rightarrow> path \<Rightarrow> 'o fs" where
  "remove_file files p = filter (\<lambda>kv. fst kv \<noteq> p) files"

text \<open>\<open>shutil.move\<close> of a file onto a file path: the source must exist.\<close>

definition move :: "'o fs \<Rightarrow> path \<Rightarrow> path \<Rightarrow> error + 'o fs" where
  "move files src dst =
     (case map_of files src of
        None \<Rightarrow> Inl FileNotFoundError
      | Some x \<Rightarrow> Inr (write_file (remove_file files src) dst x))"

text \<open>
  A saver writes an object at a path, or raises; either way it leaves a file system, and
  it may change it at will.
\<close>

type_synonym 'o saver = "'o fs \<Rightarrow> path \<Rightarrow> 'o \<Rightarrow> error option \<times> 'o fs"

definition tmp_path :: "path \<Rightarrow> path" where
  "tmp_path p = \<lparr>parent = parent p, pname = stem p @ ''.tmp'' @ suffix p\<rparr>"

definition safe_save :: "'o saver \<Rightarrow> 'o saver" where
  "safe_save saver files p x =
     (case saver files (tmp_path p) x of
        (Some e, files') \<Rightarrow> (Some e, files')
      | (None, files') \<Rightarrow>
          (case move files' (tmp_path p) p of
             Inl e \<Rightarrow> (Some e, files')
           | Inr files'' \<Rightarrow> (None, files'')))"

text \<open>
  The wrapped function receives the file system and the target; it returns a value to
  save, or \<open>None\<close>, or raises, and leaves a file system. The run of the wrapper records how
  often it called the wrapped function. The \<open>open\<close> argument of \<open>cache\<close>, which only
  changes the saver used, is taken as part of the saver.
\<close>

type_synonym 'o computation = "'o fs \<Rightarrow> path \<Rightarrow> (error + 'o option) \<times> 'o fs"

record 'o cache_run =
  cache_result :: "error + path"
  files_after :: "'o fs"
  invocations :: nat

definition cache ::
  "'o saver \<Rightarrow> bool \<Rightarrow> 'o computation \<Rightarrow> 'o fs \<Rightarrow> path \<Rightarrow> 'o cache_run" where
  "cache saver force_recompute f files out_location =
     (if exists_path files out_location \<and> \<not> force_recompute
      then \<lparr>cache_result = Inr out_location, files_after = files, invocations = 0\<rparr>
      else case f files out_location of
             (Inl e, files') \<Rightarrow>
               \<lparr>cache_result = Inl e, files_after = files', invocations = 1\<rparr>
           | (Inr None, files') \<Rightarrow>
               \<lparr>cache_result = Inr out_location, files_after = files', invocations = 1\<rparr>
           | (Inr (Some res), files') \<Rightarrow>
               (case safe_save saver files' out_location res of
                  (Some e, files'') \<Rightarrow>
                    \<lparr>cache_result = Inl e, files_after = files'', invocations = 1\<rparr>
                | (None, files'') \<Rightarrow>
                    \<lparr>cache_result = Inr out_location, files_after = files'',
                     invocations = 1\<rparr>))"

text \<open>Two consecutive calls of the wrapped action for the same target.\<close>

definition cache_twice ::
  "'o saver \<Rightarrow> bool \<Rightarrow> 'o computation \<Rightarrow> 'o fs \<Rightarrow> path \<Rightarrow> 'o cache_run \<times> 'o cache_run" where
  "cache_twice saver force_recompute f files out_location =
     (let first = cache saver force_recompute f files out_location
      in (first, cache saver force_recompute f (files_after first) out_location))"


text \<open>
  Example computations: one returns \<open>None\<close> and writes nothing, one returns a value to
  save; and the saver that writes the object at the path.
\<close>

definition compute_nothing :: "int computation" where
  "compute_nothing files p = (Inr None, files)"

definition compute_seven :: "int computation" where
  "compute_seven files p = (Inr (Some 7), files)"

definition plain_saver :: "int saver" where
  "plain_saver files p x = (None, write_file files p x)"

definition out_tsv :: path where
  "out_tsv = \<lparr>parent = ''out'', pname = ''a.tsv''\<rparr>"

section \<open>Auxiliary functions of the statements\<close>

text \<open>The names of the Data and the coordinate computers among the objects declared.\<close>

fun data_names :: "dbobject list \<Rightarrow> string list" where
  "data_names [] = []"
| "data_names (D d # xs) = name d # data_names xs"
| "data_names (x # xs) = data_names xs"

fun computers_of :: "dbobject list \<Rightarrow> CoordComputer list" where
  "computers_of [] = []"
| "computers_of (CC c # xs) = c # computers_of xs"
| "computers_of (x # xs) = computers_of xs"

fun is_Other :: "dbobject \<Rightarrow> bool" where
  "is_Other (Other _) = True"
| "is_Other _ = False"

definition two_computers :: "string \<Rightarrow> error" where
  "two_computers c = Exception (''Coordinate '' @ c @ '' has two computers'')"

text \<open>
  What one pass of the loop does on a row: the action found is called on the location and
  the other columns of the row; an action that was not found fails in its place. The
  failures and the successes of a list of rows are those of its rows, in order.
\<close>

definition call_of :: "row \<Rightarrow> val \<times> row" where
  "call_of r = (lookup r ''location'', drop_location r)"

definition invoke :: "error + action \<Rightarrow> row \<Rightarrow> error + val" where
  "invoke act r =
     (case act of Inl e \<Rightarrow> Inl e | Inr a \<Rightarrow> a (lookup r ''location'') (drop_location r))"

definition fails :: "error + action \<Rightarrow> row \<Rightarrow> bool" where
  "fails act r = isl (invoke act r)"

definition failures :: "error + action \<Rightarrow> row list \<Rightarrow> error list" where
  "failures act rs = concat (map (\<lambda>r. case invoke act r of Inl e \<Rightarrow> [e] | Inr v \<Rightarrow> []) rs)"

definition successes :: "error + action \<Rightarrow> row list \<Rightarrow> val list" where
  "successes act rs = concat (map (\<lambda>r. case invoke act r of Inl e \<Rightarrow> [] | Inr v \<Rightarrow> [v]) rs)"

definition calls_of :: "error + action \<Rightarrow> row list \<Rightarrow> (val \<times> row) list" where
  "calls_of act rs = (case act of Inl e \<Rightarrow> [] | Inr a \<Rightarrow> map call_of rs)"

text \<open>
  The groups of the collapse and what \<open>keep_unique_columns\<close> does on one of them, as
  the statements name them. A column is constant and non-missing in a group when its
  first value is not missing and every row of the group has that value.
\<close>

definition groups :: "string list \<Rightarrow> table \<Rightarrow> table list" where
  "groups names df = map (group_of names df) (group_keys names df)"

definition constant_nonmissing :: "row list \<Rightarrow> string \<Rightarrow> bool" where
  "constant_nonmissing rs c =
     (lookup (hd rs) c \<noteq> NaV \<and> (\<forall>r \<in> set rs. lookup r c = lookup (hd rs) c))"

definition kept_everywhere :: "string list \<Rightarrow> table \<Rightarrow> string \<Rightarrow> bool" where
  "kept_everywhere names df c =
     (\<forall>g \<in> set (groups names df). constant_nonmissing (rows g) c)"

text \<open>
  The tables that the computers return during one resolution, in order: those of one
  computer on the current table, of one scan, of the loop, and of \<open>get_coords\<close>. They follow
  \<open>scan_computers\<close> and \<open>join_loop\<close> step by step.
\<close>

definition computed_by :: "table \<Rightarrow> CoordComputer \<Rightarrow> table list" where
  "computed_by df cc =
     (case select_columns df (dependencies cc) of
        Inl e \<Rightarrow> []
      | Inr deps_df \<Rightarrow>
          (case compute cc (drop_duplicates deps_df) of
             Inl e \<Rightarrow> []
           | Inr computed_df \<Rightarrow> [computed_df]))"

fun scan_computed ::
  "string list \<Rightarrow> selection \<Rightarrow> CoordComputer list \<Rightarrow> table \<Rightarrow> table list" where
  "scan_computed all_names sel [] df = []"
| "scan_computed all_names sel (cc # ccs) df =
     (if applicable all_names df cc
      then computed_by df cc @
           (case join_computer sel df cc of
              Inl e \<Rightarrow> []
            | Inr df' \<Rightarrow> scan_computed all_names sel ccs df')
      else scan_computed all_names sel ccs df)"

fun loop_computed ::
  "nat \<Rightarrow> string list \<Rightarrow> selection \<Rightarrow> CoordComputer list \<Rightarrow> table \<Rightarrow> table list" where
  "loop_computed 0 all_names sel ccs df = []"
| "loop_computed (Suc k) all_names sel ccs df =
     (if set all_names \<subseteq> set (columns df) then []
      else scan_computed all_names sel ccs df @
           (case scan_computers all_names sel ccs df of
              Inl e \<Rightarrow> []
            | Inr df' \<Rightarrow> loop_computed k all_names sel ccs df'))"

definition computed_tables ::
  "python_version \<Rightarrow> nat \<Rightarrow> nat \<Rightarrow> DatabaseInstance \<Rightarrow> string list \<Rightarrow> selection
     \<Rightarrow> table list" where
  "computed_tables py limit fuel inst names sel =
     (if \<exists>kv \<in> set sel. \<not> hashable py (snd kv) then []
      else case get_dependencies limit (inst_coords inst) (remdups names) of
        Inl e \<Rightarrow> []
      | Inr all_names \<Rightarrow>
          loop_computed fuel all_names sel (coord_computers (db inst))
            \<lparr>columns = [], rows = [[]]\<rparr>)"

text \<open>A selection dictionary without the entry of one column.\<close>

definition without :: "string \<Rightarrow> selection \<Rightarrow> selection" where
  "without s sel = filter (\<lambda>kv. fst kv \<noteq> s) sel"

section \<open>Example registries\<close>

text \<open>Two registries, each with its own computer of the coordinate \<open>a\<close>.\<close>

definition cc_a1 :: CoordComputer where
  "cc_a1 = \<lparr>coords = [''a''], dependencies = [],
      compute = (\<lambda>t. Inr \<lparr>columns = [''a''], rows = [[(''a'', IntV 1)]]\<rparr>)\<rparr>"

definition cc_a2 :: CoordComputer where
  "cc_a2 = \<lparr>coords = [''a''], dependencies = [],
      compute = (\<lambda>t. Inr \<lparr>columns = [''a''], rows = [[(''a'', IntV 2)]]\<rparr>)\<rparr>"

definition db_left :: Database where
  "db_left = \<lparr>db_name = ''L'', coord_computers = [cc_a1], data = []\<rparr>"

definition db_right :: Database where
  "db_right = \<lparr>db_name = ''R'', coord_computers = [cc_a2], data = []\<rparr>"

text \<open>
  The registry of the scenario: the coordinate \<open>a\<close> with the values 1, 2 and 3 and no
  dependency, and the coordinate \<open>b = a * 10\<close> that depends on \<open>a\<close>, both made by
  \<open>from_function\<close> from functions that return a table.
\<close>

definition f_a :: "row \<Rightarrow> error + table" where
  "f_a d = Inr \<lparr>columns = [''a''],
                rows = [[(''a'', IntV 1)], [(''a'', IntV 2)], [(''a'', IntV 3)]]\<rparr>"

definition f_b :: "row \<Rightarrow> error + table" where
  "f_b d =
     (case lookup d ''a'' of
        IntV n \<Rightarrow> Inr \<lparr>columns = [''b''], rows = [[(''b'', IntV (n * 10))]]\<rparr>
      | _ \<Rightarrow> Inl TypeError)"

definition cc_a :: CoordComputer where
  "cc_a = from_function [''a''] [] f_a"

definition cc_b :: CoordComputer where
  "cc_b = from_function [''b''] [''a''] f_b"

definition db_ab :: "CoordComputer list \<Rightarrow> Database" where
  "db_ab ccs = \<lparr>db_name = ''ab'', coord_computers = ccs, data = []\<rparr>"

text \<open>The tables of the scenario: the unit of the cross join, and the two joins.\<close>

definition unit_df :: table where "unit_df = \<lparr>columns = [], rows = [[]]\<rparr>"

definition tab_a :: table where "tab_a = \<lparr>columns = [''a''],
                rows = [[(''a'', IntV 1)], [(''a'', IntV 2)], [(''a'', IntV 3)]]\<rparr>"

definition tab_ab :: table where "tab_ab = \<lparr>columns = [''a'', ''b''],
          rows =
            [[(''a'', IntV 1), (''b'', IntV 10)],
             [(''a'', IntV 2), (''b'', IntV 20)],
             [(''a'', IntV 3), (''b'', IntV 30)]]\<rparr>"

text \<open>The instance \<open>initialize\<close> builds on a registry whose computers have different coordinates.\<close>

definition inst_of :: "CoordComputer list \<Rightarrow> DatabaseInstance" where
  "inst_of ccs = \<lparr>db = db_ab ccs, inst_coords = concat (map (\<lambda>cc. map (\<lambda>c. (c, cc)) (coords cc)) ccs),
     continue_on_error = False\<rparr>"

text \<open>
  A Data on the coordinate \<open>a\<close>, stored at \<open>out/1\<close>, \<open>out/2\<close> and \<open>out/3\<close>, with a
  \<open>compute\<close> action that fails for \<open>a = 2\<close>; and a Data that puts every coordinate at the
  same location.
\<close>

definition item_location :: "row \<Rightarrow> val" where
  "item_location d =
     (if lookup d ''a'' = IntV 1 then StrV ''out/1''
      else if lookup d ''a'' = IntV 2 then StrV ''out/2''
      else if lookup d ''a'' = IntV 3 then StrV ''out/3''
      else NaV)"

definition item_compute :: action where
  "item_compute loc cs = (if lookup cs ''a'' = IntV 2 then Inl (ActionError ''boom'') else Inr loc)"

definition item :: Data where
  "item = \<lparr>name = ''item'', data_dependencies = [''a''], get_location = item_location,
           actions = [(''compute'', item_compute)]\<rparr>"

definition clash :: Data where
  "clash = \<lparr>name = ''clash'', data_dependencies = [''a''],
            get_location = (\<lambda>d. StrV ''out/all''),
            actions = [(''compute'', item_compute)]\<rparr>"

definition inst_items :: "bool \<Rightarrow> DatabaseInstance" where
  "inst_items coe =
     \<lparr>db = \<lparr>db_name = ''items'', coord_computers = [cc_a],
             data = [(''item'', item), (''clash'', clash)]\<rparr>,
      inst_coords = [(''a'', cc_a)], continue_on_error = coe\<rparr>"

text \<open>The tables of coordinates and of locations on that registry.\<close>

definition tab_a1 :: table where
  "tab_a1 = \<lparr>columns = [''a''], rows = [[(''a'', IntV 1)]]\<rparr>"

definition locs_item :: table where
  "locs_item = \<lparr>columns = [''a'', ''location''],
          rows =
            [[(''a'', IntV 1), (''location'', StrV ''out/1'')],
             [(''a'', IntV 2), (''location'', StrV ''out/2'')],
             [(''a'', IntV 3), (''location'', StrV ''out/3'')]]\<rparr>"

definition locs_clash :: table where
  "locs_clash = \<lparr>columns = [''a'', ''location''],
          rows =
            [[(''a'', IntV 1), (''location'', StrV ''out/all'')],
             [(''a'', IntV 2), (''location'', StrV ''out/all'')],
             [(''a'', IntV 3), (''location'', StrV ''out/all'')]]\<rparr>"

definition tab_a13 :: table where
  "tab_a13 = \<lparr>columns = [''a''], rows = [[(''a'', IntV 1)], [(''a'', IntV 3)]]\<rparr>"

definition locs_item13 :: table where
  "locs_item13 = \<lparr>columns = [''a'', ''location''],
          rows =
            [[(''a'', IntV 1), (''location'', StrV ''out/1'')],
             [(''a'', IntV 3), (''location'', StrV ''out/3'')]]\<rparr>"

definition locs_item1 :: table where
  "locs_item1 = \<lparr>columns = [''a'', ''location''],
                   rows = [[(''a'', IntV 1), (''location'', StrV ''out/1'')]]\<rparr>"

text \<open>
  A computer of \<open>a\<close> that carries the extra column \<open>x\<close> through: \<open>x\<close> is 5 where
  \<open>a\<close> is 1, and 6 and 7 where \<open>a\<close> is 2.
\<close>

definition df_ax :: table where
  "df_ax = \<lparr>columns = [''a'', ''x''],
            rows = [[(''a'', IntV 1), (''x'', IntV 5)],
                    [(''a'', IntV 2), (''x'', IntV 6)],
                    [(''a'', IntV 2), (''x'', IntV 7)]]\<rparr>"

definition cc_ax :: CoordComputer where
  "cc_ax = \<lparr>coords = [''a''], dependencies = [], compute = (\<lambda>df. Inr df_ax)\<rparr>"

definition inst_ax :: DatabaseInstance where
  "inst_ax = \<lparr>db = \<lparr>db_name = ''ax'', coord_computers = [cc_ax], data = []\<rparr>,
             inst_coords = [(''a'', cc_ax)], continue_on_error = False\<rparr>"

text \<open>
  A registry whose coordinate \<open>a\<close> has the values -3, 1 and 7.
\<close>

definition f_neg :: "row \<Rightarrow> error + table" where
  "f_neg d = Inr \<lparr>columns = [''a''],
                  rows = [[(''a'', IntV (- 3))], [(''a'', IntV 1)], [(''a'', IntV 7)]]\<rparr>"

definition cc_neg :: CoordComputer where
  "cc_neg = from_function [''a''] [] f_neg"

definition inst_neg :: DatabaseInstance where
  "inst_neg = \<lparr>db = \<lparr>db_name = ''neg'', coord_computers = [cc_neg], data = []\<rparr>,
              inst_coords = [(''a'', cc_neg)], continue_on_error = False\<rparr>"

text \<open>The table of that coordinate, and its rows below 5.\<close>

definition tab_neg :: table where
  "tab_neg = \<lparr>columns = [''a''],
              rows = [[(''a'', IntV (- 3))], [(''a'', IntV 1)], [(''a'', IntV 7)]]\<rparr>"

definition tab_neg_filtered :: table where
  "tab_neg_filtered = \<lparr>columns = [''a''], rows = [[(''a'', IntV (- 3))], [(''a'', IntV 1)]]\<rparr>"

section \<open>Joining registries and the duplicate-producer check\<close>

lemma declare_all_Inr_iff:
  "(\<exists>res. declare_all d xs = Inr res) \<longleftrightarrow>
     (\<forall>x \<in> set xs. \<not> is_Other x) \<and> distinct (data_names xs)
       \<and> set (data_names xs) \<inter> set (map fst (data d)) = {}"
proof (induction xs arbitrary: d)
  case Nil
  then show ?case by simp
next
  case (Cons x xs)
  show ?case
  proof (cases x)
    case (CC c)
    then show ?thesis using Cons.IH [of "d\<lparr>coord_computers := coord_computers d @ [c]\<rparr>"] by simp
  next
    case (D dd)
    then show ?thesis using Cons.IH [of "d\<lparr>data := data d @ [(name dd, dd)]\<rparr>"] by auto
  next
    case (Other s)
    then show ?thesis by simp
  qed
qed

lemma declare_all_computers:
  "declare_all d xs = Inr res \<Longrightarrow> coord_computers res = coord_computers d @ computers_of xs"
proof (induction xs arbitrary: d)
  case Nil
  then show ?case by simp
next
  case (Cons x xs)
  then show ?case by (cases x) (auto split: if_splits)
qed

lemma join_objects_names:
  "data_names (join_objects dbs) = concat (map (\<lambda>d. map (\<lambda>p. name (snd p)) (data d)) dbs)"
proof -
  have a: "\<And>cs. data_names (map CC cs) = []" subgoal for cs by (induction cs) auto done
  have b: "\<And>ps. data_names (map (\<lambda>p. D (snd p)) ps) = map (\<lambda>p. name (snd p)) ps"
    subgoal for ps by (induction ps) auto done
  have c: "\<And>xs ys. data_names (xs @ ys) = data_names xs @ data_names ys"
    subgoal for xs ys by (induction xs rule: data_names.induct) auto done
  show ?thesis unfolding join_objects_def by (induction dbs) (auto simp: a b c)
qed

lemma join_objects_computers:
  "computers_of (join_objects dbs) = concat (map coord_computers dbs)"
proof -
  have a: "\<And>cs. computers_of (map CC cs) = cs" subgoal for cs by (induction cs) auto done
  have b: "\<And>ps. computers_of (map (\<lambda>p. D (snd p)) ps) = []"
    subgoal for ps by (induction ps) auto done
  have c: "\<And>xs ys. computers_of (xs @ ys) = computers_of xs @ computers_of ys"
    subgoal for xs ys by (induction xs rule: computers_of.induct) auto done
  show ?thesis unfolding join_objects_def by (induction dbs) (auto simp: a b c)
qed

lemma join_objects_no_Other: "\<forall>x \<in> set (join_objects dbs). \<not> is_Other x"
  unfolding join_objects_def by auto

lemma index_coords_cases:
  "(distinct cs \<and> set cs \<inter> set (map fst m) = {}
      \<and> index_coords m cc cs = Inr (m @ map (\<lambda>c. (c, cc)) cs))
   \<or> (\<exists>c. 1 < count_list (map fst m @ cs) c \<and> index_coords m cc cs = Inl (two_computers c))"
proof (induction cs arbitrary: m)
  case Nil
  then show ?case by simp
next
  case (Cons c cs)
  show ?case
  proof (cases "c \<in> set (map fst m)")
    case True
    have "count_list (map fst m) c \<noteq> 0" using True count_list_0_iff [of "map fst m" c] by blast
    then have "1 < count_list (map fst m @ c # cs) c" by simp
    moreover have "index_coords m cc (c # cs) = Inl (two_computers c)"
      using True by (simp add: two_computers_def)
    ultimately show ?thesis by blast
  next
    case False
    from Cons.IH [of "m @ [(c, cc)]"] show ?thesis
    proof
      assume "distinct cs \<and> set cs \<inter> set (map fst (m @ [(c, cc)])) = {} \<and>
        index_coords (m @ [(c, cc)]) cc cs = Inr ((m @ [(c, cc)]) @ map (\<lambda>c. (c, cc)) cs)"
      then show ?thesis using False by auto
    next
      assume "\<exists>x. 1 < count_list (map fst (m @ [(c, cc)]) @ cs) x \<and>
        index_coords (m @ [(c, cc)]) cc cs = Inl (two_computers x)"
      then obtain x where x: "1 < count_list (map fst (m @ [(c, cc)]) @ cs) x"
        "index_coords (m @ [(c, cc)]) cc cs = Inl (two_computers x)" by blast
      have "count_list (map fst (m @ [(c, cc)]) @ cs) x = count_list (map fst m @ c # cs) x"
        by simp
      then have "1 < count_list (map fst m @ c # cs) x" using x(1) by simp
      moreover have "index_coords m cc (c # cs) = Inl (two_computers x)" using x(2) False by simp
      ultimately show ?thesis by blast
    qed
  qed
qed

lemma index_computers_cases:
  "(distinct (concat (map coords ccs)) \<and> set (concat (map coords ccs)) \<inter> set (map fst m) = {}
      \<and> (\<exists>m'. index_computers m ccs = Inr m'))
   \<or> (\<exists>c. 1 < count_list (map fst m @ concat (map coords ccs)) c
          \<and> index_computers m ccs = Inl (two_computers c))"
proof (induction ccs arbitrary: m)
  case Nil
  then show ?case by simp
next
  case (Cons cc ccs)
  from index_coords_cases [of "coords cc" m cc] show ?case
  proof
    assume a: "distinct (coords cc) \<and> set (coords cc) \<inter> set (map fst m) = {} \<and>
      index_coords m cc (coords cc) = Inr (m @ map (\<lambda>c. (c, cc)) (coords cc))"
    let ?m = "m @ map (\<lambda>c. (c, cc)) (coords cc)"
    have fst: "map fst ?m = map fst m @ coords cc" by (simp add: comp_def)
    from Cons.IH [of ?m] show ?thesis
    proof
      assume "distinct (concat (map coords ccs)) \<and>
        set (concat (map coords ccs)) \<inter> set (map fst ?m) = {} \<and>
        (\<exists>m'. index_computers ?m ccs = Inr m')"
      then show ?thesis using a fst by auto
    next
      assume "\<exists>c. 1 < count_list (map fst ?m @ concat (map coords ccs)) c \<and>
        index_computers ?m ccs = Inl (two_computers c)"
      then show ?thesis using a fst by auto
    qed
  next
    assume "\<exists>c. 1 < count_list (map fst m @ coords cc) c \<and>
       index_coords m cc (coords cc) = Inl (two_computers c)"
    then obtain c where c: "1 < count_list (map fst m @ coords cc) c"
      "index_coords m cc (coords cc) = Inl (two_computers c)" by blast
    then have "1 < count_list (map fst m @ concat (map coords (cc # ccs))) c" by simp
    moreover have "index_computers m (cc # ccs) = Inl (two_computers c)" using c by simp
    ultimately show ?thesis by blast
  qed
qed

lemma shared_coordinate_not_distinct:
  assumes "i < j" "j < length ccs" "c \<in> set (coords (ccs ! i))" "c \<in> set (coords (ccs ! j))"
  shows "\<not> distinct (concat (map coords ccs))"
proof -
  have i: "i < length ccs" using assms by simp
  have split: "ccs = take i ccs @ ccs ! i # drop (Suc i) ccs" using i by (rule id_take_nth_drop)
  have "ccs ! j = drop (Suc i) ccs ! (j - Suc i)" using assms by simp
  moreover have "j - Suc i < length (drop (Suc i) ccs)" using assms by simp
  ultimately have "ccs ! j \<in> set (drop (Suc i) ccs)" by (metis nth_mem)
  then have "c \<in> set (concat (map coords (drop (Suc i) ccs)))" using assms(4) by auto
  then have "\<not> distinct (coords (ccs ! i) @ concat (map coords (drop (Suc i) ccs)))"
    using assms(3) by auto
  then have "\<not> distinct (concat (map coords (take i ccs @ ccs ! i # drop (Suc i) ccs)))"
    by auto
  then show ?thesis using split by simp
qed

text \<open>
  Claim C9. \<open>Database.join\<close> returns a registry exactly when the names of the Data of
  the joined registries are pairwise different, whatever the coordinate computers are. Its
  computers are those of the joined registries, in order. When two of them produce the same
  coordinate, \<open>initialize\<close> on the joined registry raises
  \<open>Coordinate c has two computers\<close> for a coordinate \<open>c\<close> that is produced twice.
\<close>

theorem join_defers_duplicate_coordinate:
  "((\<exists>r. Database_join dbs nm = Inr r) \<longleftrightarrow>
      distinct (concat (map (\<lambda>d. map (\<lambda>p. name (snd p)) (data d)) dbs)))
   \<and> (Database_join dbs nm = Inr res \<longrightarrow>
         coord_computers res = concat (map coord_computers dbs)
       \<and> (i < j \<and> j < length (coord_computers res)
              \<and> c \<in> set (coords (coord_computers res ! i))
              \<and> c \<in> set (coords (coord_computers res ! j)) \<longrightarrow>
            (\<exists>c'. 1 < count_list (concat (map coords (coord_computers res))) c'
               \<and> Database_initialize res
                   = Inl (Exception (''Coordinate '' @ c' @ '' has two computers'')))))"
proof (intro conjI impI)
  show "(\<exists>r. Database_join dbs nm = Inr r) \<longleftrightarrow>
      distinct (concat (map (\<lambda>d. map (\<lambda>p. name (snd p)) (data d)) dbs))"
    using join_objects_no_Other [of dbs]
    by (simp add: Database_join_def Let_def declare_all_Inr_iff join_objects_names
        Database_init_def)
next
  assume "Database_join dbs nm = Inr res"
  then show cs: "coord_computers res = concat (map coord_computers dbs)"
    using declare_all_computers [of _ "join_objects dbs" res]
    by (simp add: Database_join_def Let_def join_objects_computers Database_init_def)
next
  assume "Database_join dbs nm = Inr res"
    and h: "i < j \<and> j < length (coord_computers res)
              \<and> c \<in> set (coords (coord_computers res ! i))
              \<and> c \<in> set (coords (coord_computers res ! j))"
  then have nd: "\<not> distinct (concat (map coords (coord_computers res)))"
    using shared_coordinate_not_distinct [of i j "coord_computers res" c] by blast
  from index_computers_cases [of "coord_computers res" "[]"] nd
  obtain c' where "1 < count_list (concat (map coords (coord_computers res))) c'"
    "index_computers [] (coord_computers res) = Inl (two_computers c')" by auto
  then show "\<exists>c'. 1 < count_list (concat (map coords (coord_computers res))) c'
               \<and> Database_initialize res
                   = Inl (Exception (''Coordinate '' @ c' @ '' has two computers''))"
    by (auto simp: Database_initialize_def two_computers_def)
qed

theorem join_defers_duplicate_coordinate_witness:
  "Database_join [db_left, db_right] None
     = Inr \<lparr>db_name = ''Joined(L, R)'', coord_computers = [cc_a1, cc_a2], data = []\<rparr>
   \<and> Database_initialize \<lparr>db_name = ''Joined(L, R)'', coord_computers = [cc_a1, cc_a2], data = []\<rparr>
     = Inl (Exception ''Coordinate a has two computers'')"
proof -
  let ?res = "\<lparr>db_name = ''Joined(L, R)'', coord_computers = [cc_a1, cc_a2], data = []\<rparr>"
  have j: "Database_join [db_left, db_right] None = Inr ?res"
    by (simp add: Database_join_def join_objects_def db_left_def db_right_def Database_init_def)
  have p: "(0::nat) < 1 \<and> 1 < length (coord_computers ?res)
              \<and> ''a'' \<in> set (coords (coord_computers ?res ! 0))
              \<and> ''a'' \<in> set (coords (coord_computers ?res ! 1))"
    by (simp add: cc_a1_def cc_a2_def)
  have "\<exists>c'. 1 < count_list (concat (map coords (coord_computers ?res))) c'
               \<and> Database_initialize ?res
                   = Inl (Exception (''Coordinate '' @ c' @ '' has two computers''))"
    using join_defers_duplicate_coordinate [of "[db_left, db_right]" None ?res 0 1 "''a''"] j p
    by blast
  then obtain c' where c: "1 < count_list (concat (map coords (coord_computers ?res))) c'"
     "Database_initialize ?res = Inl (Exception (''Coordinate '' @ c' @ '' has two computers''))"
    by blast
  from c(1) have "c' = ''a''" by (simp add: cc_a1_def cc_a2_def split: if_splits)
  then show ?thesis using j c(2) by simp
qed

section \<open>The cache decorator: hits and recomputation\<close>

lemma exists_write_file: "exists_path (write_file files p x) p"
  by (simp add: exists_path_def write_file_def)

lemma safe_save_publishes:
  "safe_save saver files p x = (None, files') \<Longrightarrow> exists_path files' p"
  by (auto simp: safe_save_def move_def exists_write_file split: prod.splits option.splits sum.splits)

lemma cache_hit:
  "exists_path files p \<Longrightarrow>
     cache saver False f files p = \<lparr>cache_result = Inr p, files_after = files, invocations = 0\<rparr>"
  by (simp add: cache_def)

lemma cache_invocations_le: "invocations (cache saver force f files p) \<le> 1"
  by (simp add: cache_def split: prod.splits sum.splits option.splits)

text \<open>
  Claim C8, as amended. With \<open>force_recompute\<close> unset: when the artifact exists at the
  out_tsv, the wrapped function returns the out_tsv without calling the underlying function
  and leaves the file system as it is. So of two consecutive calls for one out_tsv, the
  second is such a no-op whenever the first left the artifact at the out_tsv, and the
  underlying function is then called at most once in all. The first call leaves the artifact
  there when the underlying function returned a value and the save went through.
\<close>

theorem cache_hit_is_noop:
  "(exists_path files p \<longrightarrow>
      cache saver False f files p
        = \<lparr>cache_result = Inr p, files_after = files, invocations = 0\<rparr>)
   \<and> (exists_path (files_after (fst (cache_twice saver False f files p))) p \<longrightarrow>
        snd (cache_twice saver False f files p)
          = \<lparr>cache_result = Inr p,
             files_after = files_after (fst (cache_twice saver False f files p)),
             invocations = 0\<rparr>
        \<and> invocations (fst (cache_twice saver False f files p))
            + invocations (snd (cache_twice saver False f files p)) \<le> 1)
   \<and> (f files p = (Inr (Some res), files') \<and> fst (safe_save saver files' p res) = None \<longrightarrow>
        exists_path (files_after (fst (cache_twice saver False f files p))) p)"
proof (intro conjI impI)
  assume "exists_path files p"
  then show "cache saver False f files p
        = \<lparr>cache_result = Inr p, files_after = files, invocations = 0\<rparr>" by (rule cache_hit)
next
  let ?first = "fst (cache_twice saver False f files p)"
  assume e: "exists_path (files_after ?first) p"
  have s: "snd (cache_twice saver False f files p) = cache saver False f (files_after ?first) p"
    by (simp add: cache_twice_def Let_def)
  show "snd (cache_twice saver False f files p)
          = \<lparr>cache_result = Inr p, files_after = files_after ?first, invocations = 0\<rparr>"
    using s cache_hit [OF e] by simp
  have "?first = cache saver False f files p" by (simp add: cache_twice_def Let_def)
  then have "invocations ?first \<le> 1" using cache_invocations_le [of saver False f files p] by simp
  then show "invocations ?first + invocations (snd (cache_twice saver False f files p)) \<le> 1"
    using s cache_hit [OF e, of saver f] by simp
next
  assume a: "f files p = (Inr (Some res), files') \<and> fst (safe_save saver files' p res) = None"
  obtain files'' where ss: "safe_save saver files' p res = (None, files'')"
    using a by (cases "safe_save saver files' p res") auto
  have pub: "exists_path files'' p" using ss by (rule safe_save_publishes)
  show "exists_path (files_after (fst (cache_twice saver False f files p))) p"
  proof (cases "exists_path files p")
    case True
    then show ?thesis by (simp add: cache_twice_def Let_def cache_def)
  next
    case False
    then show ?thesis using a ss pub by (simp add: cache_twice_def Let_def cache_def)
  qed
qed

lemma tmp_target: "tmp_path out_tsv = \<lparr>parent = ''out'', pname = ''a.tmp.tsv''\<rparr>"
  by (simp add: tmp_path_def out_tsv_def stem_def suffix_def)

theorem cache_hit_is_noop_witness:
  "cache_twice plain_saver False compute_seven [] out_tsv
     = (\<lparr>cache_result = Inr out_tsv, files_after = [(out_tsv, 7)], invocations = 1\<rparr>,
        \<lparr>cache_result = Inr out_tsv, files_after = [(out_tsv, 7)], invocations = 0\<rparr>)"
proof -
  have ss: "safe_save plain_saver [] out_tsv 7 = (None, [(out_tsv, 7)])"
    by (simp add: safe_save_def plain_saver_def move_def write_file_def remove_file_def tmp_target)
  have first: "fst (cache_twice plain_saver False compute_seven [] out_tsv)
     = \<lparr>cache_result = Inr out_tsv, files_after = [(out_tsv, 7)], invocations = 1\<rparr>"
    using ss by (simp add: cache_twice_def Let_def cache_def compute_seven_def exists_path_def)
  have pre: "compute_seven [] out_tsv = (Inr (Some 7), [])
     \<and> fst (safe_save plain_saver [] out_tsv 7) = None"
    using ss by (simp add: compute_seven_def)
  have "snd (cache_twice plain_saver False compute_seven [] out_tsv)
          = \<lparr>cache_result = Inr out_tsv,
             files_after = files_after (fst (cache_twice plain_saver False compute_seven [] out_tsv)),
             invocations = 0\<rparr>"
    using cache_hit_is_noop [of "[]" out_tsv plain_saver compute_seven 7 "[]"] pre by blast
  then show ?thesis using first by (simp add: prod_eq_iff)
qed

text \<open>
  Claim C8 as stated fails: an underlying function that returns \<open>None\<close> without
  writing the artifact is called by both of two consecutive calls, with nothing deleted in
  between.
\<close>

theorem cache_recomputes_counterexample:
  "invocations (fst (cache_twice plain_saver False compute_nothing [] out_tsv))
     + invocations (snd (cache_twice plain_saver False compute_nothing [] out_tsv)) = 2
   \<and> files_after (fst (cache_twice plain_saver False compute_nothing [] out_tsv)) = []"
  by (simp add: cache_twice_def Let_def cache_def compute_nothing_def exists_path_def)

section \<open>Recursion limit and fuel: more is as good\<close>

lemma get_dependencies_mono:
  "get_dependencies k cmap ns = Inr r \<Longrightarrow> k \<le> k' \<Longrightarrow> get_dependencies k' cmap ns = Inr r"
proof (induction k cmap ns arbitrary: r k' rule: get_dependencies.induct)
  case (1 cmap names)
  then show ?case by simp
next
  case (2 k cmap)
  then obtain j where "k' = Suc j" by (cases k') auto
  with 2 show ?case by simp
next
  case (3 k cmap n ns)
  from "3.prems"(2) obtain j where j: "k' = Suc j" "k \<le> j" by (cases k') auto
  from "3.prems"(1) obtain cc where cc: "map_of cmap n = Some cc"
    by (cases "map_of cmap n") simp_all
  from "3.prems"(1) cc obtain ds where ds: "get_dependencies k cmap (dependencies cc) = Inr ds"
    by (cases "get_dependencies k cmap (dependencies cc)") simp_all
  from "3.prems"(1) cc ds obtain rest where rest: "get_dependencies (Suc k) cmap ns = Inr rest"
    by (cases "get_dependencies (Suc k) cmap ns") simp_all
  from "3.prems"(1) cc ds rest have r: "r = n # ds @ rest" by simp
  have a: "get_dependencies j cmap (dependencies cc) = Inr ds"
    using "3.IH"(1) [OF cc ds j(2)] .
  have b: "get_dependencies (Suc j) cmap ns = Inr rest"
    using "3.IH"(2) [OF cc ds rest, of "Suc j"] j(2) by simp
  show ?case using j cc a b r by simp
qed

lemma join_loop_mono:
  "join_loop fuel all_names sel ccs df = Some r \<Longrightarrow> fuel \<le> fuel'
     \<Longrightarrow> join_loop fuel' all_names sel ccs df = Some r"
proof (induction fuel arbitrary: df fuel')
  case 0
  then show ?case by (cases fuel') (auto split: if_splits)
next
  case (Suc k)
  then obtain j where j: "fuel' = Suc j" "k \<le> j" by (cases fuel') auto
  show ?case
  proof (cases "set all_names \<subseteq> set (columns df)")
    case True
    then show ?thesis using Suc.prems by simp
  next
    case False
    show ?thesis
    proof (cases "scan_computers all_names sel ccs df")
      case (Inl e)
      then have "r = Inl e" using False Suc.prems(1) by simp
      then show ?thesis using False Inl j by simp
    next
      case (Inr df')
      then have "join_loop k all_names sel ccs df' = Some r" using False Suc.prems by simp
      then have "join_loop j all_names sel ccs df' = Some r" using Suc.IH j(2) by blast
      then show ?thesis using False Inr j by simp
    qed
  qed
qed

section \<open>The hashing of the filter\<close>

lemma get_coords_hashable:
  "\<forall>kv \<in> set sel. hashable py (snd kv) \<Longrightarrow>
   get_coords py limit fuel inst names sel = get_coords_impl limit fuel inst (remdups names) sel"
  by (simp add: get_coords_def)

lemma get_coords_single:
  "\<forall>kv \<in> set sel. hashable py (snd kv) \<Longrightarrow>
   get_coords py limit fuel inst [n] sel = get_coords_impl limit fuel inst [n] sel"
  by (simp add: get_coords_def)

lemma get_coords_unhashable:
  "kv \<in> set sel \<Longrightarrow> \<not> hashable py (snd kv) \<Longrightarrow>
   get_coords py limit fuel inst names sel = Some (Inl TypeError)"
  by (auto simp: get_coords_def)

lemma hashable_empty: "\<forall>kv \<in> set ([] :: selection). hashable py (snd kv)"
  by simp

section \<open>The scenario of the coordinates a and b\<close>

lemma lookup_Nil: "lookup [] c = NaV" by (simp add: lookup_def)

lemma lookup_Cons: "lookup ((k, v) # r) c = (if k = c then v else lookup r c)"
  by (simp add: lookup_def)

lemma project_Nil: "project [] r = []" by (simp add: project_def)

lemma project_Cons: "project (c # cs) r = (c, lookup r c) # project cs r"
  by (simp add: project_def)

lemmas row_simps = lookup_Nil lookup_Cons project_Nil project_Cons

lemma compute_a: "compute cc_a unit_df = Inr tab_a"
  apply (simp add: cc_a_def from_function_def unit_df_def)
  apply (simp add: row_simps new_f_def f_a_def)
  apply (simp add: pd_concat_def unique_def row_simps tab_a_def)
  done

lemma deps_a: "select_columns unit_df (dependencies cc_a) = Inr unit_df"
  by (simp add: select_columns_def cc_a_def from_function_def unit_df_def row_simps)

lemma dd_unit: "drop_duplicates unit_df = unit_df"
  by (simp add: drop_duplicates_def unit_df_def)

lemma merge_a: "merge unit_df tab_a [] = Inr tab_a"
  by (simp add: merge_def merge_columns_def merge_rows_def merge_row_def unit_df_def tab_a_def row_simps)

lemma join_a: "join_computer [] unit_df cc_a = Inr tab_a"
  by (simp add: join_computer_def deps_a dd_unit compute_a) (simp add: cc_a_def from_function_def merge_a)

lemma cc_fields:
  "coords cc_a = [''a'']" "dependencies cc_a = []"
  "coords cc_b = [''b'']" "dependencies cc_b = [''a'']"
  by (simp_all add: cc_a_def cc_b_def from_function_def)

lemma compute_b: "compute cc_b tab_a = Inr \<lparr>columns = [''b'', ''a''],
    rows = [[(''b'', IntV 10), (''a'', IntV 1)], [(''b'', IntV 20), (''a'', IntV 2)],
            [(''b'', IntV 30), (''a'', IntV 3)]]\<rparr>"
  apply (simp add: cc_b_def from_function_def tab_a_def)
  apply (simp add: row_simps new_f_def f_b_def assign_const_def)
  apply (simp add: pd_concat_def unique_def row_simps)
  done

lemma dd_tab_a: "drop_duplicates tab_a = tab_a"
  by (simp add: drop_duplicates_def tab_a_def unique_def row_simps)

lemma deps_b: "select_columns tab_a (dependencies cc_b) = Inr tab_a"
  by (simp add: select_columns_def cc_fields tab_a_def row_simps)

lemma merge_b: "merge tab_a \<lparr>columns = [''b'', ''a''],
    rows = [[(''b'', IntV 10), (''a'', IntV 1)], [(''b'', IntV 20), (''a'', IntV 2)],
            [(''b'', IntV 30), (''a'', IntV 3)]]\<rparr> [''a''] = Inr tab_ab"
  by (simp add: merge_def merge_columns_def merge_rows_def merge_row_def tab_ab_def tab_a_def row_simps)

lemma join_b: "join_computer [] tab_a cc_b = Inr tab_ab"
  by (simp add: join_computer_def deps_b dd_tab_a compute_b) (simp add: cc_fields merge_b)

lemma scan_ab:
  "set all_names = {''a'', ''b''} \<Longrightarrow> scan_computers all_names [] [cc_a, cc_b] unit_df = Inr tab_ab"
  by (simp add: applicable_def cc_fields join_a join_b) (simp add: unit_df_def tab_a_def)

lemma scan_ba1:
  "set all_names = {''a'', ''b''} \<Longrightarrow> scan_computers all_names [] [cc_b, cc_a] unit_df = Inr tab_a"
  by (simp add: applicable_def cc_fields join_a join_b) (simp add: unit_df_def tab_a_def)

lemma scan_ba2:
  "set all_names = {''a'', ''b''} \<Longrightarrow> scan_computers all_names [] [cc_b, cc_a] tab_a = Inr tab_ab"
  by (simp add: applicable_def cc_fields join_a join_b) (simp add: unit_df_def tab_a_def tab_ab_def)

lemma loop_ab:
  "set all_names = {''a'', ''b''} \<Longrightarrow> ccs = [cc_a, cc_b] \<or> ccs = [cc_b, cc_a] \<Longrightarrow>
     join_loop 2 all_names [] ccs unit_df = Some (Inr tab_ab)"
proof -
  assume s: "set all_names = {''a'', ''b''}" and c: "ccs = [cc_a, cc_b] \<or> ccs = [cc_b, cc_a]"
  have 2: "(2::nat) = Suc (Suc 0)" by simp
  have u: "\<not> set all_names \<subseteq> set (columns unit_df)" using s by (simp add: unit_df_def)
  have a: "\<not> set all_names \<subseteq> set (columns tab_a)" using s by (simp add: tab_a_def)
  have ab: "set all_names \<subseteq> set (columns tab_ab)" using s by (simp add: tab_ab_def)
  from c show ?thesis
  proof
    assume "ccs = [cc_a, cc_b]"
    then show ?thesis unfolding 2 using u ab scan_ab [OF s]
      by (subst join_loop.simps) (simp del: join_loop.simps, subst join_loop.simps, simp del: join_loop.simps)
  next
    assume "ccs = [cc_b, cc_a]"
    then show ?thesis unfolding 2 using u a ab scan_ba1 [OF s] scan_ba2 [OF s]
      by (subst join_loop.simps) (simp del: join_loop.simps, subst join_loop.simps,
          simp del: join_loop.simps, subst join_loop.simps, simp del: join_loop.simps)
  qed
qed

lemma col_unique_single: "col_unique [r] c = (lookup r c \<noteq> NaV)"
  by (simp add: col_unique_def pd_eq_def py_invert_def)

lemma collapse_ab:
  "names = [''a'', ''b''] \<or> names = [''b'', ''a''] \<Longrightarrow> collapse names tab_ab = Inr tab_ab"
  apply (erule disjE)
   apply (simp_all add: collapse_def tab_ab_def group_keys_def group_of_def unique_def row_simps)
   apply (simp_all add: keep_unique_columns_def col_unique_single row_simps)
   apply (simp_all add: pd_concat_def unique_def select_columns_def row_simps)
  done

lemma init_ab:
  "ccs = [cc_a, cc_b] \<or> ccs = [cc_b, cc_a] \<Longrightarrow> Database_initialize (db_ab ccs) = Inr (inst_of ccs)"
  by (auto simp: Database_initialize_def db_ab_def inst_of_def cc_fields)

lemma deps_ab:
  "ccs = [cc_a, cc_b] \<or> ccs = [cc_b, cc_a] \<Longrightarrow>
   names = [''a'', ''b''] \<or> names = [''b'', ''a''] \<Longrightarrow>
   \<exists>all_names. get_dependencies 3 (inst_coords (inst_of ccs)) names = Inr all_names
      \<and> set all_names = {''a'', ''b''}"
  by (auto simp: inst_of_def cc_fields numeral_3_eq_3)

lemma two_element_list:
  assumes "distinct xs" "set xs = {x, y}" "x \<noteq> y"
  shows "xs = [x, y] \<or> xs = [y, x]"
proof -
  have "length xs = 2" using assms distinct_card [of xs] by simp
  then obtain p q where xs: "xs = [p, q]"
    by (metis (no_types, opaque_lifting) One_nat_def Suc_1 length_0_conv length_Suc_conv)
  then show ?thesis using assms by (auto simp: doubleton_eq_iff)
qed

lemma get_coords_ab:
  assumes "ccs = [cc_a, cc_b] \<or> ccs = [cc_b, cc_a]"
    and "set names = {''a'', ''b''}"
    and "3 \<le> limit" and "2 \<le> fuel"
  shows "get_coords py limit fuel (inst_of ccs) names [] = Some (Inr tab_ab)"
proof -
  have n: "remdups names = [''a'', ''b''] \<or> remdups names = [''b'', ''a'']"
    using two_element_list [of "remdups names" "''a''" "''b''"] assms(2) by simp
  obtain all_names where
    d3: "get_dependencies 3 (inst_coords (inst_of ccs)) (remdups names) = Inr all_names"
    and s: "set all_names = {''a'', ''b''}"
    using deps_ab [OF assms(1) n] by blast
  have d: "get_dependencies limit (inst_coords (inst_of ccs)) (remdups names) = Inr all_names"
    using get_dependencies_mono [OF d3 assms(3)] .
  have l: "join_loop fuel all_names [] ccs unit_df = Some (Inr tab_ab)"
    using join_loop_mono [OF loop_ab [OF s assms(1)] assms(4)] .
  show ?thesis
    using d l collapse_ab [OF n]
    by (simp add: get_coords_def get_coords_impl_def inst_of_def db_ab_def unit_df_def)
qed

text \<open>
  Claim C1. On the registry with the computer of \<open>a\<close> (values 1, 2, 3, no dependency) and
  the computer of \<open>b = a * 10\<close> (dependency \<open>a\<close>), declared in either order,
  \<open>get_coords\<close> of the names \<open>a\<close> and \<open>b\<close> with the empty filter returns, given a
  recursion limit of at least 3 and fuel for two scans, a table with the columns \<open>a\<close> and
  \<open>b\<close> and exactly three rows, whose pairs are (1,10), (2,20) and (3,30).
\<close>

theorem resolve_a_b_scenario:
  assumes "ccs = [cc_a, cc_b] \<or> ccs = [cc_b, cc_a]"
    and "set names = {''a'', ''b''}"
    and "3 \<le> limit" and "2 \<le> fuel"
  shows "\<exists>inst t. Database_initialize (db_ab ccs) = Inr inst
      \<and> get_coords py limit fuel inst names [] = Some (Inr t)
      \<and> set (columns t) = {''a'', ''b''}
      \<and> length (rows t) = 3
      \<and> set (map (\<lambda>r. (lookup r ''a'', lookup r ''b'')) (rows t))
          = {(IntV 1, IntV 10), (IntV 2, IntV 20), (IntV 3, IntV 30)}"
proof -
  have "get_coords py limit fuel (inst_of ccs) names [] = Some (Inr tab_ab)"
    using assms by (rule get_coords_ab)
  moreover have "set (columns tab_ab) = {''a'', ''b''}" by (simp add: tab_ab_def)
  moreover have "length (rows tab_ab) = 3" by (simp add: tab_ab_def)
  moreover have "set (map (\<lambda>r. (lookup r ''a'', lookup r ''b'')) (rows tab_ab))
          = {(IntV 1, IntV 10), (IntV 2, IntV 20), (IntV 3, IntV 30)}"
    by (simp add: tab_ab_def row_simps)
  ultimately show ?thesis using init_ab [OF assms(1)] by blast
qed

theorem resolve_a_b_scenario_witness:
  "\<exists>t. get_coords Py_3_12 3 2 (inst_of [cc_b, cc_a]) [''b'', ''a''] [] = Some (Inr t)
      \<and> set (columns t) = {''a'', ''b''}
      \<and> length (rows t) = 3
      \<and> set (map (\<lambda>r. (lookup r ''a'', lookup r ''b'')) (rows t))
          = {(IntV 1, IntV 10), (IntV 2, IntV 20), (IntV 3, IntV 30)}"
proof -
  have i: "Database_initialize (db_ab [cc_b, cc_a]) = Inr (inst_of [cc_b, cc_a])"
    by (rule init_ab) simp
  have "set [''b'', ''a''] = {''a'', ''b''}" by auto
  from resolve_a_b_scenario [where ccs = "[cc_b, cc_a]" and names = "[''b'', ''a'']"
      and limit = 3 and fuel = 2 and py = Py_3_12, OF _ this]
  show ?thesis using i by auto
qed

section \<open>Locations and actions on the example registry\<close>

lemma init_items:
  "Database_join [\<lparr>db_name = ''items'', coord_computers = [cc_a], data = []\<rparr>,
                  \<lparr>db_name = ''d'', coord_computers = [], data = [(''item'', item), (''clash'', clash)]\<rparr>]
     (Some ''items'') = Inr (db (inst_items False))
   \<and> Database_initialize (db (inst_items False)) = Inr (inst_items False)"
  by (simp add: Database_join_def join_objects_def Database_init_def inst_items_def item_def
      clash_def Database_initialize_def cc_fields)

lemma get_coords_impl_eval:
  "get_dependencies limit (inst_coords inst) names = Inr all_names \<Longrightarrow>
   join_loop fuel all_names sel (coord_computers (db inst)) unit_df = Some (Inr df) \<Longrightarrow>
   get_coords_impl limit fuel inst names sel = Some (collapse names df)"
  by (simp add: get_coords_impl_def unit_df_def del: join_loop.simps)

lemma get_locations_eval:
  "map_of (data (db inst)) nm = Some d \<Longrightarrow>
   get_coords py limit fuel inst (data_dependencies d) sel = Some (Inr coords_df) \<Longrightarrow>
   get_locations py limit fuel inst nm sel
     = Some (Inr ((set_location (get_location d) coords_df)\<lparr>rows :=
          filter (\<lambda>r. \<not> isna (lookup r ''location''))
                 (rows (set_location (get_location d) coords_df))\<rparr>))"
  by (simp add: get_locations_def Let_def)

lemma items_fields:
  "inst_coords (inst_items coe) = [(''a'', cc_a)]"
  "coord_computers (db (inst_items coe)) = [cc_a]"
  "map_of (data (db (inst_items coe))) ''item'' = Some item"
  "map_of (data (db (inst_items coe))) ''clash'' = Some clash"
  "continue_on_error (inst_items coe) = coe"
  "data_dependencies item = [''a'']" "data_dependencies clash = [''a'']"
  "get_location item = item_location" "get_location clash = (\<lambda>d. StrV ''out/all'')"
  by (simp_all add: inst_items_def item_def clash_def)

lemma deps_items: "get_dependencies 2 (inst_coords (inst_items coe)) [''a''] = Inr [''a'']"
  by (simp add: items_fields cc_fields numeral_2_eq_2)

lemma loop_items:
  assumes "join_computer sel unit_df cc_a = Inr t" "''a'' \<in> set (columns t)"
  shows "join_loop 1 [''a''] sel (coord_computers (db (inst_items coe))) unit_df = Some (Inr t)"
proof -
  have 1: "(1::nat) = Suc 0" by simp
  have app: "applicable [''a''] unit_df cc_a"
    by (simp add: applicable_def cc_fields unit_df_def)
  have scan: "scan_computers [''a''] sel [cc_a] unit_df = Inr t"
    using app assms(1) by simp
  have u: "\<not> set [''a''] \<subseteq> set (columns unit_df)" by (simp add: unit_df_def)
  have t: "set [''a''] \<subseteq> set (columns t)" using assms(2) by simp
  have "join_loop (Suc 0) [''a''] sel [cc_a] unit_df = join_loop 0 [''a''] sel [cc_a] t"
    using u scan by (subst join_loop.simps) (simp del: join_loop.simps)
  also have "\<dots> = Some (Inr t)"
    using t by (subst join_loop.simps) (simp del: join_loop.simps)
  finally show ?thesis unfolding 1 items_fields .
qed

lemma join_a_exact:
  "join_computer [(''a'', Exact (IntV 1))] unit_df cc_a
     = Inr \<lparr>columns = [''a''], rows = [[(''a'', IntV 1)]]\<rparr>"
  by (simp add: join_computer_def deps_a dd_unit compute_a)
     (simp add: cc_fields tab_a_def row_simps pd_eq_def merge_def merge_columns_def
        merge_rows_def merge_row_def unit_df_def)

lemma collapse_a:
  "collapse [''a''] tab_a = Inr tab_a"
  apply (simp add: collapse_def tab_a_def group_keys_def group_of_def unique_def row_simps)
  apply (simp add: keep_unique_columns_def col_unique_single row_simps)
  apply (simp add: pd_concat_def unique_def select_columns_def row_simps)
  done

lemma collapse_a1: "collapse [''a''] tab_a1 = Inr tab_a1"
  apply (simp add: collapse_def tab_a1_def group_keys_def group_of_def unique_def row_simps)
  apply (simp add: keep_unique_columns_def col_unique_single row_simps)
  apply (simp add: pd_concat_def unique_def select_columns_def row_simps)
  done

lemma coords_items: "get_coords py 2 1 (inst_items coe) [''a''] [] = Some (Inr tab_a)"
proof -
  have "join_loop 1 [''a''] [] (coord_computers (db (inst_items coe))) unit_df
      = Some (Inr tab_a)"
    by (rule loop_items [OF join_a]) (simp add: tab_a_def)
  from get_coords_impl_eval [OF deps_items this] show ?thesis
    unfolding get_coords_single [OF hashable_empty] by (simp only: collapse_a)
qed

lemma coords_items_exact:
  "get_coords py 2 1 (inst_items coe) [''a''] [(''a'', Exact (IntV 1))] = Some (Inr tab_a1)"
proof -
  have l: "join_loop 1 [''a''] [(''a'', Exact (IntV 1))] (coord_computers (db (inst_items coe)))
          unit_df = Some (Inr tab_a1)"
    by (rule loop_items [OF join_a_exact [folded tab_a1_def]]) (simp add: tab_a1_def)
  have h: "\<forall>kv \<in> set [(''a'', Exact (IntV 1))]. hashable py (snd kv)" by simp
  from get_coords_impl_eval [OF deps_items l] show ?thesis
    unfolding get_coords_single [OF h] by (simp only: collapse_a1)
qed

lemma locations_item: "get_locations py 2 1 (inst_items coe) ''item'' [] = Some (Inr locs_item)"
proof -
  have c: "get_coords py 2 1 (inst_items coe) (data_dependencies item) [] = Some (Inr tab_a)"
    unfolding items_fields by (rule coords_items)
  show ?thesis
    unfolding get_locations_eval [OF items_fields(3) c]
    by (simp add: items_fields set_location_def tab_a_def row_simps item_location_def isna_def
        locs_item_def)
qed

lemma locations_clash: "get_locations py 2 1 (inst_items coe) ''clash'' [] = Some (Inr locs_clash)"
proof -
  have c: "get_coords py 2 1 (inst_items coe) (data_dependencies clash) [] = Some (Inr tab_a)"
    unfolding items_fields by (rule coords_items)
  show ?thesis
    unfolding get_locations_eval [OF items_fields(4) c]
    by (simp add: items_fields set_location_def tab_a_def row_simps isna_def locs_clash_def)
qed

lemma locations_item_exact:
  "get_locations py 2 1 (inst_items coe) ''item'' [(''a'', Exact (IntV 1))] = Some (Inr locs_item1)"
proof -
  have c: "get_coords py 2 1 (inst_items coe) (data_dependencies item) [(''a'', Exact (IntV 1))]
      = Some (Inr tab_a1)"
    unfolding items_fields by (rule coords_items_exact)
  show ?thesis
    unfolding get_locations_eval [OF items_fields(3) c]
    by (simp add: items_fields set_location_def tab_a1_def row_simps item_location_def isna_def
        locs_item1_def)
qed

lemma join_a_allowed:
  "join_computer [(''a'', Allowed [IntV 1, IntV 3])] unit_df cc_a = Inr tab_a13"
  by (simp add: join_computer_def deps_a dd_unit compute_a)
     (simp add: cc_fields tab_a_def tab_a13_def row_simps merge_def merge_columns_def
        merge_rows_def merge_row_def unit_df_def)

lemma collapse_a13: "collapse [''a''] tab_a13 = Inr tab_a13"
  apply (simp add: collapse_def tab_a13_def group_keys_def group_of_def unique_def row_simps)
  apply (simp add: keep_unique_columns_def col_unique_single row_simps)
  apply (simp add: pd_concat_def unique_def select_columns_def row_simps)
  done

lemma coords_items_allowed:
  "get_coords py 2 1 (inst_items coe) [''a''] [(''a'', Allowed [IntV 1, IntV 3])]
     = Some (Inr tab_a13)"
proof -
  have l: "join_loop 1 [''a''] [(''a'', Allowed [IntV 1, IntV 3])]
          (coord_computers (db (inst_items coe))) unit_df = Some (Inr tab_a13)"
    by (rule loop_items [OF join_a_allowed]) (simp add: tab_a13_def)
  have h: "\<forall>kv \<in> set [(''a'', Allowed [IntV 1, IntV 3])]. hashable py (snd kv)" by simp
  from get_coords_impl_eval [OF deps_items l] show ?thesis
    unfolding get_coords_single [OF h] by (simp only: collapse_a13)
qed

lemma locations_item_allowed:
  "get_locations py 2 1 (inst_items coe) ''item'' [(''a'', Allowed [IntV 1, IntV 3])]
     = Some (Inr locs_item13)"
proof -
  have c: "get_coords py 2 1 (inst_items coe) (data_dependencies item)
      [(''a'', Allowed [IntV 1, IntV 3])] = Some (Inr tab_a13)"
    unfolding items_fields by (rule coords_items_allowed)
  show ?thesis
    unfolding get_locations_eval [OF items_fields(3) c]
    by (simp add: items_fields set_location_def tab_a13_def row_simps item_location_def isna_def
        locs_item13_def)
qed

text \<open>
  Claim C5, on the code. \<open>get_single_location\<close> raises \<open>AttributeError\<close> on every
  input, since it names an extractor that the class does not define; so it does on the Data
  \<open>item\<close> with the filter \<open>a = 1\<close>, where the table of locations has the single row of
  location \<open>out/1\<close>.
\<close>

theorem get_single_location_raises:
  "get_single_location py limit fuel inst nm sel = Some (Inl (AttributeError ''_extract_unique''))
   \<and> get_locations py 2 1 (inst_items False) ''item'' [(''a'', Exact (IntV 1))]
       = Some (Inr locs_item1)
   \<and> length (rows locs_item1) = 1
   \<and> get_single_location py 2 1 (inst_items False) ''item'' [(''a'', Exact (IntV 1))]
       = Some (Inl (AttributeError ''_extract_unique''))"
proof (intro conjI)
  show g: "\<And>limit fuel inst nm sel.
      get_single_location py limit fuel inst nm sel = Some (Inl (AttributeError ''_extract_unique''))"
    by (simp add: get_single_location_def class_attribute_def DatabaseInstance_attributes_def)
  show "get_locations py 2 1 (inst_items False) ''item'' [(''a'', Exact (IntV 1))]
       = Some (Inr locs_item1)" by (rule locations_item_exact)
  show "length (rows locs_item1) = 1" by (simp add: locs_item1_def)
  show "get_single_location py 2 1 (inst_items False) ''item'' [(''a'', Exact (IntV 1))]
       = Some (Inl (AttributeError ''_extract_unique''))" by (rule g)
qed

section \<open>The loop of run_action\<close>

lemma failures_Cons:
  "failures act (r # rs) = (case invoke act r of Inl e \<Rightarrow> [e] | Inr v \<Rightarrow> []) @ failures act rs"
  by (simp add: failures_def)

lemma successes_Cons:
  "successes act (r # rs) = (case invoke act r of Inl e \<Rightarrow> [] | Inr v \<Rightarrow> [v]) @ successes act rs"
  by (simp add: successes_def)

lemma calls_of_Cons:
  "calls_of act (r # rs) = calls_of act [r] @ calls_of act rs"
  by (simp add: calls_of_def split: sum.splits)

lemma calls_of_Nil: "calls_of act [] = []"
  by (simp add: calls_of_def split: sum.splits)

lemma length_failures: "length (failures act rs) = length (filter (fails act) rs)"
  by (induction rs) (auto simp: failures_def fails_def split: sum.splits)

lemma failures_Nil_iff: "failures act rs = [] \<longleftrightarrow> (\<forall>r \<in> set rs. \<not> fails act r)"
  by (induction rs) (auto simp: failures_def fails_def split: sum.splits)

lemma action_loop_step:
  "action_loop coe act (r # rs) st =
     (case invoke act r of
        Inl e \<Rightarrow>
          if \<not> coe then (Inl e, st\<lparr>calls := calls st @ calls_of act [r]\<rparr>)
          else action_loop coe act rs
                 (st\<lparr>calls := calls st @ calls_of act [r], errors := errors st @ [e]\<rparr>)
      | Inr v \<Rightarrow>
          action_loop coe act rs
            (st\<lparr>calls := calls st @ calls_of act [r], results := results st @ [v]\<rparr>))"
  by (cases act) (simp_all add: invoke_def calls_of_def call_of_def Let_def split: sum.splits)

lemma action_loop_continue:
  "action_loop True act rs st =
     (Inr (), st\<lparr>results := results st @ successes act rs,
                  errors := errors st @ failures act rs,
                  calls := calls st @ calls_of act rs\<rparr>)"
proof (induction rs arbitrary: st)
  case Nil
  then show ?case by (simp add: successes_def failures_def calls_of_Nil)
next
  case (Cons r rs)
  show ?case
    unfolding action_loop_step
    by (cases "invoke act r")
       (simp_all add: Cons.IH failures_Cons successes_Cons calls_of_Cons [of act r rs])
qed

lemma action_loop_fail_fast_ok:
  "\<forall>r \<in> set rs. \<not> fails act r \<Longrightarrow>
   action_loop False act rs st =
     (Inr (), st\<lparr>results := results st @ successes act rs,
                  calls := calls st @ calls_of act rs\<rparr>)"
proof (induction rs arbitrary: st)
  case Nil
  then show ?case by (simp add: successes_def calls_of_Nil)
next
  case (Cons r rs)
  then obtain v where v: "invoke act r = Inr v" by (cases "invoke act r") (auto simp: fails_def)
  have "\<forall>r \<in> set rs. \<not> fails act r" using Cons.prems by simp
  then show ?case
    unfolding action_loop_step
    by (simp add: v Cons.IH successes_Cons calls_of_Cons [of act r rs])
qed

lemma action_loop_fail_fast:
  "\<forall>x \<in> set ok. \<not> fails act x \<Longrightarrow> invoke act r = Inl e \<Longrightarrow>
   action_loop False act (ok @ r # rest) st =
     (Inl e, st\<lparr>results := results st @ successes act ok,
                  calls := calls st @ calls_of act (ok @ [r])\<rparr>)"
proof (induction ok arbitrary: st)
  case Nil
  then show ?case
    unfolding append_Nil action_loop_step by (simp add: successes_def)
next
  case (Cons x ok)
  then obtain v where v: "invoke act x = Inr v" by (cases "invoke act x") (auto simp: fails_def)
  have ok: "\<forall>x \<in> set ok. \<not> fails act x" using Cons.prems by simp
  show ?case
    unfolding append_Cons action_loop_step
    by (simp add: v Cons.IH [OF ok Cons.prems(2)] successes_Cons
        calls_of_Cons [of act x "ok @ [r]"])
qed

section \<open>run_action: duplicate locations and failing actions\<close>

lemma count_list_shared:
  assumes "i < j" "j < length xs" "xs ! i = xs ! j"
  shows "1 < count_list xs (xs ! i)"
proof -
  have i: "i < length xs" using assms by simp
  have split: "xs = take i xs @ xs ! i # drop (Suc i) xs" using i by (rule id_take_nth_drop)
  have "xs ! j = drop (Suc i) xs ! (j - Suc i)" using assms by simp
  moreover have "j - Suc i < length (drop (Suc i) xs)" using assms by simp
  ultimately have "xs ! j \<in> set (drop (Suc i) xs)" by (metis nth_mem)
  then have "count_list (drop (Suc i) xs) (xs ! i) \<noteq> 0"
    using assms(3) count_list_0_iff [of "drop (Suc i) xs" "xs ! i"] by simp
  then have "1 < count_list (take i xs @ xs ! i # drop (Suc i) xs) (xs ! i)" by simp
  then show ?thesis using split by simp
qed

lemma run_action_eval:
  "get_locations py limit fuel inst target sel = Some (Inr locs) \<Longrightarrow>
   run_action py limit fuel inst act target sel single
     = Some (run_action_on inst act target single locs)"
  by (simp add: run_action_def)

text \<open>
  Claim C6. When two rows of the table of locations, at the positions \<open>i < j\<close>, have the
  same location, \<open>run_action\<close> raises the duplication error for every action name, without a
  call of an action; the error carries the rows whose location occurs more than once, the
  two rows among them.
\<close>

theorem run_action_duplicate_locations:
  assumes "get_locations py limit fuel inst target sel = Some (Inr locs)"
    and "i < j" and "j < length (rows locs)"
    and "lookup (rows locs ! i) ''location'' = lookup (rows locs ! j) ''location''"
  shows "run_action py limit fuel inst act target sel single
           = Some \<lparr>returned = Inl (DuplicationProblem (duplicated_rows locs)),
                   action_calls = []\<rparr>
       \<and> rows locs ! i \<in> set (duplicated_rows locs)
       \<and> rows locs ! j \<in> set (duplicated_rows locs)"
proof -
  let ?ls = "map (\<lambda>r. lookup r ''location'') (rows locs)"
  have len: "j < length ?ls" "i < length ?ls" using assms by simp_all
  have eq: "?ls ! i = ?ls ! j" using assms len by simp
  have c: "1 < count_list ?ls (?ls ! i)"
    using count_list_shared [OF assms(2) len(1) eq] .
  have nd: "\<not> distinct ?ls"
    using assms(2) len eq distinct_conv_nth [of ?ls] by (metis nat_neq_iff)
  have "rows locs ! i \<in> set (rows locs)" "rows locs ! j \<in> set (rows locs)"
    using assms by simp_all
  moreover have "1 < count_list ?ls (lookup (rows locs ! i) ''location'')"
    "1 < count_list ?ls (lookup (rows locs ! j) ''location'')"
    using c assms len by simp_all
  ultimately have "rows locs ! i \<in> set (duplicated_rows locs)"
    "rows locs ! j \<in> set (duplicated_rows locs)"
    by (simp_all add: duplicated_rows_def)
  then show ?thesis
    using nd by (simp add: run_action_eval [OF assms(1)] run_action_on_def)
qed

theorem run_action_duplicate_locations_witness:
  "run_action Py_3_12 2 1 (inst_items False) ''location'' ''clash'' [] False
     = Some \<lparr>returned = Inl (DuplicationProblem (rows locs_clash)), action_calls = []\<rparr>"
proof -
  have d: "duplicated_rows locs_clash = rows locs_clash"
    by (simp add: duplicated_rows_def locs_clash_def row_simps)
  have "(0::nat) < 1" "1 < length (rows locs_clash)"
    "lookup (rows locs_clash ! 0) ''location'' = lookup (rows locs_clash ! 1) ''location''"
    by (simp_all add: locs_clash_def row_simps)
  from run_action_duplicate_locations [OF locations_clash this] d
  show ?thesis by simp
qed

lemma lookup_pairs: "lookup (map (\<lambda>c. (c, f c)) cs) c = (if c \<in> set cs then f c else NaV)"
  by (induction cs) (auto simp: lookup_def)

lemma set_column_columns:
  "columns (set_column t k vs) = (if k \<in> set (columns t) then columns t else columns t @ [k])"
  by (simp add: set_column_def Let_def)

lemma set_column_length:
  "length vs = length (rows t) \<Longrightarrow> length (rows (set_column t k vs)) = length (rows t)"
  by (simp add: set_column_def Let_def)

lemma set_column_new:
  assumes "length vs = length (rows t)"
  shows "map (\<lambda>r. lookup r k) (rows (set_column t k vs)) = vs"
proof -
  have "map (\<lambda>r. lookup r k) (rows (set_column t k vs)) = map snd (zip (rows t) vs)"
    by (auto simp: set_column_def Let_def lookup_pairs simp del: map_append)
  then show ?thesis using assms by simp
qed

lemma set_column_old:
  assumes "length vs = length (rows t)" "c \<in> set (columns t)" "c \<noteq> k"
  shows "map (\<lambda>r. lookup r c) (rows (set_column t k vs)) = map (\<lambda>r. lookup r c) (rows t)"
proof -
  have "map (\<lambda>r. lookup r c) (rows (set_column t k vs))
      = map (\<lambda>r. lookup r c) (map fst (zip (rows t) vs))"
    using assms(2,3) by (auto simp: set_column_def Let_def lookup_pairs simp del: map_append)
  then show ?thesis using assms(1) by simp
qed

lemma invoke_successes:
  "\<forall>r \<in> set rs. \<not> fails act r \<Longrightarrow> map (invoke act) rs = map Inr (successes act rs)"
proof (induction rs)
  case Nil
  then show ?case by (simp add: successes_def)
next
  case (Cons r rs)
  then obtain v where v: "invoke act r = Inr v" by (cases "invoke act r") (auto simp: fails_def)
  then show ?case using Cons by (simp add: successes_Cons)
qed

lemma length_successes:
  "\<forall>r \<in> set rs. \<not> fails act r \<Longrightarrow> length (successes act rs) = length rs"
  using invoke_successes [of rs act] by (metis length_map)

lemma extract_single_one:
  "length (rows t) = 1 \<Longrightarrow> col \<in> set (columns t) \<Longrightarrow>
   extract_single t col = Inr (hd (map (\<lambda>r. lookup r col) (rows t)))"
  by (cases "rows t") (auto simp: extract_single_def split: list.splits)

text \<open>
  Claim C7. Let the locations be pairwise different, the action not be \<open>location\<close>,
  \<open>rs\<close> be the rows of the table of locations, and \<open>tab\<close> be that table with the results
  of the action as column. With \<open>continue_on_error\<close> set, every row is
  processed (the action, when the Data has it, is called once for each row, in order), and
  either some row fails and \<open>run_action\<close> raises one \<open>ExceptionGroup\<close> that holds the
  failures of the failing rows, as many as there are failing rows, or no row fails and it
  returns the table with the results as a new column (through \<open>_extract_single\<close> when
  \<open>single\<close> is set). With the flag unset, if \<open>r\<close> is the first failing row, after the
  rows \<open>ok\<close>, \<open>run_action\<close> raises the failure of \<open>r\<close> and no row after \<open>r\<close> is
  processed; if no row fails it returns as above. In both modes, when no row fails, the
  table returned has the columns of the locations and the column of the action (last, when
  it is new), one row for each location, the result of the action on each row in the column
  of the action, and the other columns as they were; with \<open>single\<close> set and one location,
  the result of that row is returned.
\<close>

theorem run_action_partial_failures:
  assumes "get_locations py limit fuel inst target sel = Some (Inr locs)"
    and "distinct (map (\<lambda>r. lookup r ''location'') (rows locs))"
    and "act \<noteq> ''location''"
    and "rs = map (project (columns locs)) (rows locs)"
    and "fa = find_action inst target act"
    and "tab = set_column locs act (successes fa rs)"
  shows "\<exists>run. run_action py limit fuel inst act target sel single = Some run
     \<and> (continue_on_error inst \<longrightarrow>
            action_calls run = calls_of fa rs
          \<and> (\<forall>a. fa = Inr a \<longrightarrow> action_calls run = map call_of rs)
          \<and> length (failures fa rs) = length (filter (fails fa) rs)
          \<and> (filter (fails fa) rs \<noteq> [] \<longrightarrow>
                returned run = Inl (ExceptionGroup (''During '' @ act @ '' for '' @ target)
                                     (failures fa rs)))
          \<and> (filter (fails fa) rs = [] \<longrightarrow>
                returned run = finish single (set_column locs act (successes fa rs)) act))
     \<and> (\<not> continue_on_error inst \<longrightarrow>
            (rs = ok @ r # rest \<and> (\<forall>x \<in> set ok. \<not> fails fa x) \<and> invoke fa r = Inl e \<longrightarrow>
                returned run = Inl e \<and> action_calls run = calls_of fa (ok @ [r]))
          \<and> (filter (fails fa) rs = [] \<longrightarrow>
                returned run = finish single (set_column locs act (successes fa rs)) act
              \<and> action_calls run = calls_of fa rs))
     \<and> (filter (fails fa) rs = [] \<longrightarrow>
            (\<not> single \<longrightarrow> returned run = Inr (Frame tab))
          \<and> (single \<and> length (rows locs) = 1 \<longrightarrow>
                returned run = Inr (Scalar (hd (successes fa rs))))
          \<and> columns tab
              = (if act \<in> set (columns locs) then columns locs else columns locs @ [act])
          \<and> length (rows tab) = length (rows locs)
          \<and> map (\<lambda>row. lookup row act) (rows tab) = successes fa rs
          \<and> map (invoke fa) rs = map Inr (successes fa rs)
          \<and> (c \<in> set (columns locs) \<and> c \<noteq> act \<longrightarrow>
                map (\<lambda>row. lookup row c) (rows tab) = map (\<lambda>row. lookup row c) (rows locs)))"
proof -
  let ?run = "run_action_on inst act target single locs"
  have run: "run_action py limit fuel inst act target sel single = Some ?run"
    using assms(1) by (rule run_action_eval)
  have none: "filter (fails fa) rs = [] \<longleftrightarrow> failures fa rs = []"
    by (simp add: failures_Nil_iff filter_empty_conv)
  have coe: "continue_on_error inst \<Longrightarrow>
      ?run = (if failures fa rs \<noteq> []
              then \<lparr>returned = Inl (ExceptionGroup (''During '' @ act @ '' for '' @ target)
                                       (failures fa rs)),
                    action_calls = calls_of fa rs\<rparr>
              else \<lparr>returned = finish single (set_column locs act (successes fa rs)) act,
                    action_calls = calls_of fa rs\<rparr>)"
    using assms(2,3)
    by (simp add: run_action_on_def assms(4,5) [symmetric] action_loop_continue)
  have ff_ok: "\<not> continue_on_error inst \<Longrightarrow> filter (fails fa) rs = [] \<Longrightarrow>
      ?run = \<lparr>returned = finish single (set_column locs act (successes fa rs)) act,
              action_calls = calls_of fa rs\<rparr>"
    using assms(2,3)
    by (simp add: run_action_on_def assms(4,5) [symmetric] action_loop_fail_fast_ok
        filter_empty_conv)
  have ff: "\<not> continue_on_error inst \<Longrightarrow> rs = ok @ r # rest \<Longrightarrow>
      \<forall>x \<in> set ok. \<not> fails fa x \<Longrightarrow> invoke fa r = Inl e \<Longrightarrow>
      ?run = \<lparr>returned = Inl e, action_calls = calls_of fa (ok @ [r])\<rparr>"
    using assms(2,3)
    by (simp add: run_action_on_def assms(4,5) [symmetric] action_loop_fail_fast)
  have calls: "\<And>a. fa = Inr a \<Longrightarrow> calls_of fa rs = map call_of rs"
    by (simp add: calls_of_def)
  have fin: "filter (fails fa) rs = [] \<Longrightarrow> returned ?run = finish single tab act"
    using coe ff_ok none assms(6) by (cases "continue_on_error inst") simp_all
  have ok: "filter (fails fa) rs = [] \<Longrightarrow> \<forall>x \<in> set rs. \<not> fails fa x"
    by (simp add: filter_empty_conv)
  have len: "filter (fails fa) rs = [] \<Longrightarrow> length (successes fa rs) = length (rows locs)"
    using length_successes [OF ok] assms(4) by simp
  have col: "filter (fails fa) rs = [] \<Longrightarrow> map (\<lambda>row. lookup row act) (rows tab) = successes fa rs"
    unfolding assms(6) using len by (rule set_column_new)
  have one: "filter (fails fa) rs = [] \<Longrightarrow> single \<Longrightarrow> length (rows locs) = 1 \<Longrightarrow>
      returned ?run = Inr (Scalar (hd (successes fa rs)))"
  proof -
    assume f: "filter (fails fa) rs = []" and s: single and l: "length (rows locs) = 1"
    have "length (rows tab) = 1" unfolding assms(6) using set_column_length [OF len [OF f]] l by simp
    moreover have "act \<in> set (columns tab)" unfolding assms(6) by (simp add: set_column_columns)
    ultimately have "extract_single tab act = Inr (hd (successes fa rs))"
      using extract_single_one [of tab act] col [OF f] by simp
    then show ?thesis using fin [OF f] s by (simp add: finish_def)
  qed
  show ?thesis
  proof (intro exI [of _ ?run] conjI impI allI)
    show "run_action py limit fuel inst act target sel single = Some ?run" by (rule run)
  next
    assume "continue_on_error inst"
    then show "action_calls ?run = calls_of fa rs" using coe by simp
  next
    fix a assume "continue_on_error inst" "fa = Inr a"
    then show "action_calls ?run = map call_of rs" using coe calls by simp
  next
    show "length (failures fa rs) = length (filter (fails fa) rs)" by (rule length_failures)
  next
    assume "continue_on_error inst" "filter (fails fa) rs \<noteq> []"
    then show "returned ?run = Inl (ExceptionGroup (''During '' @ act @ '' for '' @ target)
                                     (failures fa rs))"
      using coe none by simp
  next
    assume "continue_on_error inst" "filter (fails fa) rs = []"
    then show "returned ?run = finish single (set_column locs act (successes fa rs)) act"
      using coe none by simp
  next
    assume "\<not> continue_on_error inst"
      "rs = ok @ r # rest \<and> (\<forall>x \<in> set ok. \<not> fails fa x) \<and> invoke fa r = Inl e"
    then have "?run = \<lparr>returned = Inl e, action_calls = calls_of fa (ok @ [r])\<rparr>"
      using ff by blast
    then show "returned ?run = Inl e" "action_calls ?run = calls_of fa (ok @ [r])" by simp_all
  next
    assume "\<not> continue_on_error inst" "filter (fails fa) rs = []"
    then show "returned ?run = finish single (set_column locs act (successes fa rs)) act"
      "action_calls ?run = calls_of fa rs"
      using ff_ok by simp_all
  next
    assume "filter (fails fa) rs = []" "\<not> single"
    then show "returned ?run = Inr (Frame tab)" using fin by (simp add: finish_def)
  next
    assume "filter (fails fa) rs = []" "single \<and> length (rows locs) = 1"
    then show "returned ?run = Inr (Scalar (hd (successes fa rs)))" using one by blast
  next
    show "columns tab = (if act \<in> set (columns locs) then columns locs else columns locs @ [act])"
      unfolding assms(6) by (rule set_column_columns)
  next
    assume "filter (fails fa) rs = []"
    then show "length (rows tab) = length (rows locs)"
      unfolding assms(6) using len by (intro set_column_length)
  next
    assume "filter (fails fa) rs = []"
    then show "map (\<lambda>row. lookup row act) (rows tab) = successes fa rs" by (rule col)
  next
    assume "filter (fails fa) rs = []"
    then show "map (invoke fa) rs = map Inr (successes fa rs)"
      using ok by (intro invoke_successes)
  next
    assume "filter (fails fa) rs = []" "c \<in> set (columns locs) \<and> c \<noteq> act"
    then show "map (\<lambda>row. lookup row c) (rows tab) = map (\<lambda>row. lookup row c) (rows locs)"
      unfolding assms(6) using len by (intro set_column_old) simp_all
  qed
qed

lemma find_item_compute: "find_action (inst_items coe) ''item'' ''compute'' = Inr item_compute"
  by (simp add: find_action_def items_fields) (simp add: item_def)

lemma rows_item: "map (project (columns locs_item)) (rows locs_item) = rows locs_item"
  by (simp add: locs_item_def row_simps)

lemma invoke_item:
  "invoke (Inr item_compute) [(''a'', IntV 1), (''location'', StrV ''out/1'')] = Inr (StrV ''out/1'')"
  "invoke (Inr item_compute) [(''a'', IntV 2), (''location'', StrV ''out/2'')] = Inl (ActionError ''boom'')"
  "invoke (Inr item_compute) [(''a'', IntV 3), (''location'', StrV ''out/3'')] = Inr (StrV ''out/3'')"
  by (simp_all add: invoke_def item_compute_def drop_location_def row_simps)

theorem run_action_partial_failures_witness:
  "run_action Py_3_12 2 1 (inst_items True) ''compute'' ''item'' [] False
     = Some \<lparr>returned = Inl (ExceptionGroup ''During compute for item'' [ActionError ''boom'']),
             action_calls = [(StrV ''out/1'', [(''a'', IntV 1)]), (StrV ''out/2'', [(''a'', IntV 2)]),
                             (StrV ''out/3'', [(''a'', IntV 3)])]\<rparr>
   \<and> run_action Py_3_12 2 1 (inst_items False) ''compute'' ''item'' [] False
     = Some \<lparr>returned = Inl (ActionError ''boom''),
             action_calls = [(StrV ''out/1'', [(''a'', IntV 1)]), (StrV ''out/2'', [(''a'', IntV 2)])]\<rparr>
   \<and> run_action Py_3_12 2 1 (inst_items True) ''compute'' ''item''
         [(''a'', Allowed [IntV 1, IntV 3])] False
     = Some \<lparr>returned = Inr (Frame \<lparr>columns = [''a'', ''location'', ''compute''],
                 rows = [[(''a'', IntV 1), (''location'', StrV ''out/1''),
                          (''compute'', StrV ''out/1'')],
                         [(''a'', IntV 3), (''location'', StrV ''out/3''),
                          (''compute'', StrV ''out/3'')]]\<rparr>),
             action_calls = [(StrV ''out/1'', [(''a'', IntV 1)]), (StrV ''out/3'', [(''a'', IntV 3)])]\<rparr>"
proof -
  let ?fa = "Inr item_compute :: error + action"
  let ?r1 = "[(''a'', IntV 1), (''location'', StrV ''out/1'')]"
  let ?r2 = "[(''a'', IntV 2), (''location'', StrV ''out/2'')]"
  let ?r3 = "[(''a'', IntV 3), (''location'', StrV ''out/3'')]"
  have d: "distinct (map (\<lambda>r. lookup r ''location'') (rows locs_item))"
    by (simp add: locs_item_def row_simps)
  have ne: "''compute'' \<noteq> ''location''" by simp
  have rs: "rows locs_item = map (project (columns locs_item)) (rows locs_item)"
    by (simp add: rows_item)
  have rs3: "rows locs_item = [?r1] @ ?r2 # [?r3]" by (simp add: locs_item_def)
  have fl: "failures ?fa (rows locs_item) = [ActionError ''boom'']"
    by (simp add: failures_def locs_item_def invoke_item)
  have nf: "filter (fails ?fa) (rows locs_item) \<noteq> []"
    by (simp add: fails_def locs_item_def invoke_item)
  have ok: "\<forall>x \<in> set [?r1]. \<not> fails ?fa x" by (simp add: fails_def invoke_item)
  have c3: "calls_of ?fa (rows locs_item)
      = [(StrV ''out/1'', [(''a'', IntV 1)]), (StrV ''out/2'', [(''a'', IntV 2)]),
         (StrV ''out/3'', [(''a'', IntV 3)])]"
    by (simp add: calls_of_def call_of_def locs_item_def drop_location_def row_simps)
  have c2: "calls_of ?fa ([?r1] @ [?r2])
      = [(StrV ''out/1'', [(''a'', IntV 1)]), (StrV ''out/2'', [(''a'', IntV 2)])]"
    by (simp add: calls_of_def call_of_def drop_location_def row_simps)
  obtain run1 where run1: "run_action Py_3_12 2 1 (inst_items True) ''compute'' ''item'' [] False = Some run1"
    "action_calls run1 = calls_of ?fa (rows locs_item)"
    "returned run1 = Inl (ExceptionGroup (''During '' @ ''compute'' @ '' for '' @ ''item'')
                            (failures ?fa (rows locs_item)))"
    using run_action_partial_failures [OF locations_item [where coe = True and py = Py_3_12]
        d ne rs find_item_compute [where coe = True, symmetric] refl, where single = False] nf
    by (auto simp: items_fields)
  obtain run2 where run2: "run_action Py_3_12 2 1 (inst_items False) ''compute'' ''item'' [] False = Some run2"
    "returned run2 = Inl (ActionError ''boom'')"
    "action_calls run2 = calls_of ?fa ([?r1] @ [?r2])"
    using run_action_partial_failures [OF locations_item [where coe = False and py = Py_3_12]
        d ne rs find_item_compute [where coe = False, symmetric] refl,
        where single = False and ok = "[?r1]" and r = ?r2 and rest = "[?r3]"
          and e = "ActionError ''boom''"] rs3 ok invoke_item(2)
    by (auto simp: items_fields)
  have d13: "distinct (map (\<lambda>r. lookup r ''location'') (rows locs_item13))"
    by (simp add: locs_item13_def row_simps)
  have rs13: "rows locs_item13 = map (project (columns locs_item13)) (rows locs_item13)"
    by (simp add: locs_item13_def row_simps)
  have nf13: "filter (fails ?fa) (rows locs_item13) = []"
    by (simp add: fails_def locs_item13_def invoke_item)
  have s13: "successes ?fa (rows locs_item13) = [StrV ''out/1'', StrV ''out/3'']"
    by (simp add: successes_def locs_item13_def invoke_item)
  have c13: "calls_of ?fa (rows locs_item13)
      = [(StrV ''out/1'', [(''a'', IntV 1)]), (StrV ''out/3'', [(''a'', IntV 3)])]"
    by (simp add: calls_of_def call_of_def locs_item13_def drop_location_def row_simps)
  obtain run3 where run3: "run_action Py_3_12 2 1 (inst_items True) ''compute'' ''item''
         [(''a'', Allowed [IntV 1, IntV 3])] False = Some run3"
    "action_calls run3 = calls_of ?fa (rows locs_item13)"
    "returned run3
       = Inr (Frame (set_column locs_item13 ''compute'' (successes ?fa (rows locs_item13))))"
    using run_action_partial_failures [OF locations_item_allowed [where coe = True and py = Py_3_12]
        d13 ne rs13 find_item_compute [where coe = True, symmetric] refl,
        where single = False] nf13
    by (auto simp: items_fields)
  have t13: "set_column locs_item13 ''compute'' [StrV ''out/1'', StrV ''out/3'']
      = \<lparr>columns = [''a'', ''location'', ''compute''],
                 rows = [[(''a'', IntV 1), (''location'', StrV ''out/1''),
                          (''compute'', StrV ''out/1'')],
                         [(''a'', IntV 3), (''location'', StrV ''out/3''),
                          (''compute'', StrV ''out/3'')]]\<rparr>"
    by (simp add: set_column_def locs_item13_def row_simps)
  have r3: "run3 = \<lparr>returned = Inr (Frame \<lparr>columns = [''a'', ''location'', ''compute''],
                 rows = [[(''a'', IntV 1), (''location'', StrV ''out/1''),
                          (''compute'', StrV ''out/1'')],
                         [(''a'', IntV 3), (''location'', StrV ''out/3''),
                          (''compute'', StrV ''out/3'')]]\<rparr>),
             action_calls = [(StrV ''out/1'', [(''a'', IntV 1)]), (StrV ''out/3'', [(''a'', IntV 3)])]\<rparr>"
    using run3(2,3) s13 c13 t13 by (cases run3) simp
  have "run1 = \<lparr>returned = Inl (ExceptionGroup ''During compute for item'' [ActionError ''boom'']),
             action_calls = [(StrV ''out/1'', [(''a'', IntV 1)]), (StrV ''out/2'', [(''a'', IntV 2)]),
                             (StrV ''out/3'', [(''a'', IntV 3)])]\<rparr>"
    using run1(2,3) fl c3 by (cases run1) simp
  moreover have "run2 = \<lparr>returned = Inl (ActionError ''boom''),
             action_calls = [(StrV ''out/1'', [(''a'', IntV 1)]), (StrV ''out/2'', [(''a'', IntV 2)])]\<rparr>"
    using run2(2,3) c2 by (cases run2) simp
  ultimately show ?thesis using run1(1) run2(1) run3(1) r3 by simp
qed

section \<open>The collapse\<close>

lemma lookup_project: "lookup (project cs r) c = (if c \<in> set cs then lookup r c else NaV)"
  by (induction cs) (auto simp: lookup_def project_def)

lemma col_unique_iff: "rs \<noteq> [] \<Longrightarrow> col_unique rs c = constant_nonmissing rs c"
  by (cases rs) (auto simp: col_unique_def constant_nonmissing_def pd_eq_def py_invert_def)

lemma keep_unique_columns_nonempty:
  "rows g \<noteq> [] \<Longrightarrow>
   keep_unique_columns ctr g =
     Inr (\<lparr>columns = filter (constant_nonmissing (rows g)) (columns g),
           rows = [project (filter (constant_nonmissing (rows g)) (columns g)) (hd (rows g))]\<rparr>,
          ctr @ filter (\<lambda>c. \<not> constant_nonmissing (rows g) c) (columns g))"
  by (cases "rows g") (simp_all add: keep_unique_columns_def col_unique_iff cong: filter_cong)

lemma apply_groups_nonempty:
  "\<forall>g \<in> set gs. rows g \<noteq> [] \<Longrightarrow>
   apply_groups ctr gs =
     Inr (map (\<lambda>g. \<lparr>columns = filter (constant_nonmissing (rows g)) (columns g),
                     rows = [project (filter (constant_nonmissing (rows g)) (columns g))
                                     (hd (rows g))]\<rparr>) gs,
          ctr @ concat (map (\<lambda>g. filter (\<lambda>c. \<not> constant_nonmissing (rows g) c) (columns g)) gs))"
proof (induction gs arbitrary: ctr)
  case Nil
  then show ?case by simp
next
  case (Cons g gs)
  then show ?case by (simp add: keep_unique_columns_nonempty)
qed

lemma set_unique: "set (unique xs) = set xs"
  by (simp add: unique_def)

lemma distinct_unique: "distinct (unique xs)"
  by (simp add: unique_def)

lemma group_rows_key:
  "r \<in> set (rows (group_of names df k)) \<Longrightarrow> map (lookup r) names = k"
  by (auto simp: group_of_def)

lemma group_nonempty:
  assumes "k \<in> set (group_keys names df)" "set names \<subseteq> set (columns df)"
  shows "rows (group_of names df k) \<noteq> []"
proof -
  from assms(1) obtain r where r: "r \<in> set (rows df)" "k = map (lookup r) names"
    by (auto simp: group_keys_def set_unique)
  have "map (lookup (project (columns df) r)) names = k"
    using assms(2) r(2) by (auto simp: lookup_project)
  then have "project (columns df) r \<in> set (rows (group_of names df k))"
    using r(1) by (auto simp: group_of_def)
  then show ?thesis by auto
qed

lemma key_no_missing: "k \<in> set (group_keys names df) \<Longrightarrow> NaV \<notin> set k"
  by (auto simp: group_keys_def set_unique)

lemma names_constant:
  assumes "k \<in> set (group_keys names df)" "set names \<subseteq> set (columns df)" "n \<in> set names"
  shows "constant_nonmissing (rows (group_of names df k)) n"
proof -
  let ?rs = "rows (group_of names df k)"
  have ne: "?rs \<noteq> []" using assms(1,2) by (rule group_nonempty)
  have val: "\<And>r. r \<in> set ?rs \<Longrightarrow> lookup r n \<in> set k"
    using group_rows_key [of _ names df k] assms(3) by force
  have same: "\<And>r r'. r \<in> set ?rs \<Longrightarrow> r' \<in> set ?rs \<Longrightarrow> lookup r n = lookup r' n"
  proof -
    fix r r' assume "r \<in> set ?rs" "r' \<in> set ?rs"
    then have "map (lookup r) names = map (lookup r') names"
      using group_rows_key [of _ names df k] by simp
    then show "lookup r n = lookup r' n" using assms(3) by (simp add: map_eq_conv)
  qed
  have hd: "hd ?rs \<in> set ?rs" using ne by simp
  show ?thesis
    unfolding constant_nonmissing_def
    using val [OF hd] same [OF _ hd] key_no_missing [OF assms(1)] by metis
qed

lemma group_columns: "g \<in> set (groups names df) \<Longrightarrow> columns g = columns df"
  by (auto simp: groups_def group_of_def)

lemma groups_nonempty:
  "set names \<subseteq> set (columns df) \<Longrightarrow> g \<in> set (groups names df) \<Longrightarrow> rows g \<noteq> []"
  by (auto simp: groups_def group_nonempty)

lemma project_cong: "(\<And>c. c \<in> set cs \<Longrightarrow> lookup r c = lookup r' c) \<Longrightarrow> project cs r = project cs r'"
  by (simp add: project_def)

lemma select_columns_subset:
  "set cs \<subseteq> set (columns t) \<Longrightarrow>
   select_columns t cs = Inr \<lparr>columns = cs, rows = map (project cs) (rows t)\<rparr>"
proof -
  assume "set cs \<subseteq> set (columns t)"
  then have "filter (\<lambda>c. c \<notin> set (columns t)) cs = []" by (auto simp: filter_empty_conv)
  then show ?thesis by (simp add: select_columns_def)
qed

lemma collapse_result:
  assumes "names \<noteq> []" "set names \<subseteq> set (columns df)"
  shows "\<exists>res. collapse names df = Inr res
    \<and> (groups names df \<noteq> [] \<longrightarrow>
         set (columns res) = {c \<in> set (columns df). kept_everywhere names df c})
    \<and> (groups names df = [] \<longrightarrow> columns res = columns df)
    \<and> rows res = map (\<lambda>g. project (columns res) (hd (rows g))) (groups names df)"
proof -
  let ?gs = "groups names df"
  let ?kc = "\<lambda>g. filter (constant_nonmissing (rows g)) (columns g)"
  let ?ts = "map (\<lambda>g. \<lparr>columns = ?kc g, rows = [project (?kc g) (hd (rows g))]\<rparr>) ?gs"
  let ?ctr = "concat (map (\<lambda>g. filter (\<lambda>c. \<not> constant_nonmissing (rows g) c) (columns g)) ?gs)"
  have nomiss: "filter (\<lambda>c. c \<notin> set (columns df)) names = []"
    using assms(2) by (auto simp: filter_empty_conv)
  have ag: "apply_groups [] ?gs = Inr (?ts, ?ctr)"
    using apply_groups_nonempty [of ?gs "[]"] groups_nonempty [OF assms(2)] by simp
  show ?thesis
  proof (cases "?gs = []")
    case True
    have "collapse names df = Inr \<lparr>columns = columns df, rows = []\<rparr>"
      using assms(1) nomiss ag True
      by (simp add: collapse_def groups_def [symmetric] select_columns_subset)
    then show ?thesis using True by simp
  next
    case False
    let ?cs = "unique (concat (map columns ?ts))"
    let ?fc = "filter (\<lambda>col. col \<notin> set ?ctr) ?cs"
    let ?res0 = "\<lparr>columns = ?cs, rows = map (project ?cs) (concat (map rows ?ts))\<rparr>"
    have ts: "?ts \<noteq> []" using False by simp
    have cat: "pd_concat ?ts = Inr ?res0" using ts by (simp add: pd_concat_def Let_def)
    have sel: "select_columns ?res0 ?fc = Inr \<lparr>columns = ?fc, rows = map (project ?fc) (rows ?res0)\<rparr>"
      by (rule select_columns_subset) auto
    have col: "collapse names df = Inr \<lparr>columns = ?fc, rows = map (project ?fc) (rows ?res0)\<rparr>"
      using assms(1) nomiss ag ts cat sel
      by (simp add: collapse_def groups_def [symmetric] del: map_is_Nil_conv)
    have in_cs: "\<And>c. c \<in> set ?cs \<longleftrightarrow> (\<exists>g \<in> set ?gs. c \<in> set (columns df) \<and> constant_nonmissing (rows g) c)"
      using group_columns [of _ names df] by (auto simp: set_unique)
    have in_ctr: "\<And>c. c \<in> set ?ctr \<longleftrightarrow> (\<exists>g \<in> set ?gs. c \<in> set (columns df) \<and> \<not> constant_nonmissing (rows g) c)"
      using group_columns [of _ names df] by auto
    have fc: "set ?fc = {c \<in> set (columns df). kept_everywhere names df c}"
    proof -
      obtain g0 where "g0 \<in> set ?gs" using False by (cases ?gs) auto
      then show ?thesis
        unfolding set_filter kept_everywhere_def using in_cs in_ctr by blast
    qed
    have rows0: "concat (map rows ?ts) = map (\<lambda>g. project (?kc g) (hd (rows g))) ?gs"
      by (induction ?gs) (simp_all add: comp_def concat_map_singleton)
    have row: "\<And>g. g \<in> set ?gs \<Longrightarrow>
        project ?fc (project ?cs (project (?kc g) (hd (rows g)))) = project ?fc (hd (rows g))"
    proof (rule project_cong)
      fix g c assume g: "g \<in> set ?gs" and c: "c \<in> set ?fc"
      then have "c \<in> set (columns df)" "kept_everywhere names df c" using fc by auto
      then have "c \<in> set (?kc g)" using g group_columns [OF g]
        by (simp add: kept_everywhere_def)
      moreover have "c \<in> set ?cs" using c by simp
      ultimately show "lookup (project ?cs (project (?kc g) (hd (rows g)))) c = lookup (hd (rows g)) c"
        by (simp only: lookup_project if_True)
    qed
    have "map (project ?fc) (rows ?res0) = map (\<lambda>g. project ?fc (hd (rows g))) ?gs"
      using row by (simp add: rows0 comp_def)
    then show ?thesis using col fc False by simp
  qed
qed

lemma collapse_names_keys:
  assumes "collapse names df = Inr res"
  shows "map (\<lambda>r. map (lookup r) names) (rows res) = group_keys names df"
proof -
  have ne: "names \<noteq> []" using assms by (auto simp: collapse_def)
  have sub: "set names \<subseteq> set (columns df)"
  proof (rule ccontr)
    assume "\<not> set names \<subseteq> set (columns df)"
    then obtain c cs where "filter (\<lambda>c. c \<notin> set (columns df)) names = c # cs"
      by (cases "filter (\<lambda>c. c \<notin> set (columns df)) names") (auto simp: filter_empty_conv)
    then show False using assms ne by (simp add: collapse_def)
  qed
  from collapse_result [OF ne sub] assms have
    cols: "groups names df \<noteq> [] \<Longrightarrow>
         set (columns res) = {c \<in> set (columns df). kept_everywhere names df c}"
    and rows: "rows res = map (\<lambda>g. project (columns res) (hd (rows g))) (groups names df)"
    by auto
  have key: "\<And>k. k \<in> set (group_keys names df) \<Longrightarrow>
      map (lookup (project (columns res) (hd (rows (group_of names df k))))) names = k"
  proof -
    fix k assume k: "k \<in> set (group_keys names df)"
    then have g: "group_of names df k \<in> set (groups names df)" by (simp add: groups_def)
    then have gs: "groups names df \<noteq> []" by auto
    have "\<And>n. n \<in> set names \<Longrightarrow> n \<in> set (columns res)"
    proof -
      fix n assume n: "n \<in> set names"
      have "kept_everywhere names df n"
        unfolding kept_everywhere_def groups_def
        using names_constant [OF _ sub n] by auto
      then show "n \<in> set (columns res)" using cols [OF gs] sub n by auto
    qed
    then have "map (lookup (project (columns res) (hd (rows (group_of names df k))))) names
        = map (lookup (hd (rows (group_of names df k)))) names"
      by (simp add: lookup_project)
    moreover have "hd (rows (group_of names df k)) \<in> set (rows (group_of names df k))"
      using group_nonempty [OF k sub] by simp
    ultimately show "map (lookup (project (columns res) (hd (rows (group_of names df k))))) names = k"
      using group_rows_key by simp
  qed
  show ?thesis
    unfolding rows groups_def map_map comp_def using key by (simp add: map_idI)
qed

lemma get_coords_collapse:
  "get_coords py limit fuel inst names sel = Some (Inr res) \<Longrightarrow>
   \<exists>df. collapse (remdups names) df = Inr res"
  by (auto simp: get_coords_def get_coords_impl_def split: sum.splits option.splits if_splits)

text \<open>
  Claim C3. No two rows of a table that \<open>get_coords\<close> returns have the same values on
  the requested names, whatever the names and the filter are.
\<close>

theorem get_coords_unique_rows:
  assumes "get_coords py limit fuel inst names sel = Some (Inr res)"
  shows "distinct (map (\<lambda>r. map (lookup r) names) (rows res))"
proof -
  obtain df where "collapse (remdups names) df = Inr res"
    using get_coords_collapse [OF assms] by blast
  then have "map (\<lambda>r. map (lookup r) (remdups names)) (rows res) = group_keys (remdups names) df"
    by (rule collapse_names_keys)
  then have d: "distinct (map (\<lambda>r. map (lookup r) (remdups names)) (rows res))"
    by (simp add: group_keys_def distinct_unique)
  have "\<And>r r'. map (lookup r) names = map (lookup r') names
      \<Longrightarrow> map (lookup r) (remdups names) = map (lookup r') (remdups names)"
    by (simp add: map_eq_conv)
  then have "inj_on (\<lambda>r. map (lookup r) names) (set (rows res))"
    using d unfolding distinct_map inj_on_def by blast
  then show ?thesis using d by (simp add: distinct_map)
qed

theorem get_coords_unique_rows_witness:
  "get_coords Py_3_12 2 1 (inst_items False) [''a''] [] = Some (Inr tab_a)
   \<and> distinct (map (\<lambda>r. map (lookup r) [''a'']) (rows tab_a))"
  using get_coords_unique_rows [OF coords_items [where coe = False and py = Py_3_12]]
    coords_items [where coe = False and py = Py_3_12] by blast

lemma groups_ax:
  "groups [''a''] df_ax =
     [\<lparr>columns = [''a'', ''x''], rows = [[(''a'', IntV 1), (''x'', IntV 5)]]\<rparr>,
      \<lparr>columns = [''a'', ''x''], rows = [[(''a'', IntV 2), (''x'', IntV 6)],
                                         [(''a'', IntV 2), (''x'', IntV 7)]]\<rparr>]"
  by (simp add: groups_def group_keys_def group_of_def df_ax_def unique_def row_simps)

lemma kept_ax:
  "kept_everywhere [''a''] df_ax ''a''" "\<not> kept_everywhere [''a''] df_ax ''x''"
  by (simp_all add: kept_everywhere_def groups_ax constant_nonmissing_def row_simps)

lemma collapse_ax:
  "collapse [''a''] df_ax
     = Inr \<lparr>columns = [''a''], rows = [[(''a'', IntV 1)], [(''a'', IntV 2)]]\<rparr>"
  apply (simp add: collapse_def df_ax_def group_keys_def group_of_def unique_def row_simps)
  apply (simp add: keep_unique_columns_def col_unique_def pd_eq_def py_invert_def isna_def row_simps)
  apply (simp add: pd_concat_def unique_def select_columns_def row_simps)
  done

text \<open>
  Claim C2, as amended. When the requested names are columns of the table, the collapse
  returns a table: its columns are the columns that are constant and non-missing in every
  group (all columns when there is no group), and its rows are the first rows of the
  groups, one for each group, on these columns. A column that varies in one group is dropped
  for all groups.
\<close>

theorem collapse_keeps_columns_constant_in_every_group:
  assumes "names \<noteq> []" and "set names \<subseteq> set (columns df)"
  shows "\<exists>res. collapse names df = Inr res
    \<and> (groups names df \<noteq> [] \<longrightarrow>
         set (columns res) = {c \<in> set (columns df). kept_everywhere names df c})
    \<and> (groups names df = [] \<longrightarrow> columns res = columns df)
    \<and> rows res = map (\<lambda>g. project (columns res) (hd (rows g))) (groups names df)"
  using assms by (rule collapse_result)

theorem collapse_keeps_columns_constant_in_every_group_witness:
  "collapse [''a''] df_ax
     = Inr \<lparr>columns = [''a''], rows = [[(''a'', IntV 1)], [(''a'', IntV 2)]]\<rparr>"
proof -
  have "[''a''] \<noteq> []" "set [''a''] \<subseteq> set (columns df_ax)" by (simp_all add: df_ax_def)
  from collapse_keeps_columns_constant_in_every_group [OF this]
  obtain res where res: "collapse [''a''] df_ax = Inr res"
    "groups [''a''] df_ax \<noteq> [] \<longrightarrow>
         set (columns res) = {c \<in> set (columns df_ax). kept_everywhere [''a''] df_ax c}"
    "rows res = map (\<lambda>g. project (columns res) (hd (rows g))) (groups [''a''] df_ax)"
    by blast
  have gne: "groups [''a''] df_ax \<noteq> []" by (simp add: groups_ax)
  have cols: "set (columns df_ax) = {''a'', ''x''}" by (simp add: df_ax_def)
  have "set (columns res) = {c \<in> set (columns df_ax). kept_everywhere [''a''] df_ax c}"
    using res(2) gne by blast
  then have s: "set (columns res) = {''a''}"
    using kept_ax cols by auto
  from res(1) show ?thesis by (simp add: collapse_ax)
qed

lemma init_ax: "Database_initialize (db inst_ax) = Inr inst_ax"
  by (simp add: Database_initialize_def inst_ax_def cc_ax_def)

lemma join_ax: "join_computer [] unit_df cc_ax = Inr df_ax"
  by (simp add: join_computer_def cc_ax_def select_columns_def unit_df_def drop_duplicates_def
      row_simps)
     (simp add: df_ax_def merge_def merge_columns_def merge_rows_def merge_row_def row_simps)

lemma loop_ax:
  "join_loop 1 [''a''] [] (coord_computers (db inst_ax)) unit_df = Some (Inr df_ax)"
proof -
  have 1: "(1::nat) = Suc 0" by simp
  have ccs: "coord_computers (db inst_ax) = [cc_ax]" by (simp add: inst_ax_def)
  have app: "applicable [''a''] unit_df cc_ax"
    by (simp add: applicable_def cc_ax_def unit_df_def)
  have scan: "scan_computers [''a''] [] [cc_ax] unit_df = Inr df_ax"
    using app join_ax by simp
  have u: "\<not> set [''a''] \<subseteq> set (columns unit_df)" by (simp add: unit_df_def)
  have t: "set [''a''] \<subseteq> set (columns df_ax)" by (simp add: df_ax_def)
  have "join_loop (Suc 0) [''a''] [] [cc_ax] unit_df = join_loop 0 [''a''] [] [cc_ax] df_ax"
    using u scan by (subst join_loop.simps) (simp del: join_loop.simps)
  also have "\<dots> = Some (Inr df_ax)"
    using t by (subst join_loop.simps) (simp del: join_loop.simps)
  finally show ?thesis unfolding 1 ccs .
qed

lemma deps_ax: "get_dependencies 2 (inst_coords inst_ax) [''a''] = Inr [''a'']"
  by (simp add: inst_ax_def cc_ax_def numeral_2_eq_2)

lemma coords_ax:
  "get_coords py 2 1 inst_ax [''a''] []
     = Some (Inr \<lparr>columns = [''a''], rows = [[(''a'', IntV 1)], [(''a'', IntV 2)]]\<rparr>)"
  using get_coords_impl_eval [OF deps_ax loop_ax]
  unfolding get_coords_single [OF hashable_empty] by (simp only: collapse_ax)

text \<open>
  Claim C2 as stated fails. The computer of \<open>a\<close> carries the column \<open>x\<close> through; the
  table joined is \<open>df_ax\<close>. In the group of \<open>a = 1\<close> the column \<open>x\<close> is constant and not
  missing, and still the row returned for that group has no column \<open>x\<close>, because \<open>x\<close>
  varies in the group of \<open>a = 2\<close>.
\<close>

theorem collapse_drops_constant_column_counterexample:
  "join_loop 1 [''a''] [] (coord_computers (db inst_ax)) unit_df = Some (Inr df_ax)
   \<and> get_coords Py_3_12 2 1 inst_ax [''a''] []
       = Some (Inr \<lparr>columns = [''a''], rows = [[(''a'', IntV 1)], [(''a'', IntV 2)]]\<rparr>)
   \<and> group_of [''a''] df_ax [IntV 1] \<in> set (groups [''a''] df_ax)
   \<and> constant_nonmissing (rows (group_of [''a''] df_ax [IntV 1])) ''x''"
proof (intro conjI)
  show "join_loop 1 [''a''] [] (coord_computers (db inst_ax)) unit_df = Some (Inr df_ax)"
    by (rule loop_ax)
  show "get_coords Py_3_12 2 1 inst_ax [''a''] []
       = Some (Inr \<lparr>columns = [''a''], rows = [[(''a'', IntV 1)], [(''a'', IntV 2)]]\<rparr>)"
    by (rule coords_ax)
  show "group_of [''a''] df_ax [IntV 1] \<in> set (groups [''a''] df_ax)"
    by (simp add: groups_def group_keys_def df_ax_def unique_def row_simps)
  show "constant_nonmissing (rows (group_of [''a''] df_ax [IntV 1])) ''x''"
    by (simp add: constant_nonmissing_def group_of_def df_ax_def row_simps)
qed

section \<open>Filter entries of columns that never occur\<close>

lemma apply_selector_columns: "apply_selector s v df = Inr df' \<Longrightarrow> columns df' = columns df"
  by (cases v) (auto split: if_splits sum.splits)

lemma filter_df_without:
  "s \<notin> set (columns df) \<Longrightarrow> filter_df df (without s sel) = filter_df df sel"
proof (induction sel arbitrary: df)
  case Nil
  then show ?case by (simp add: without_def)
next
  case (Cons kv sel)
  obtain k v where kv: "kv = (k, v)" by (cases kv)
  show ?case
  proof (cases "k = s")
    case True
    then show ?thesis using Cons kv by (simp add: without_def)
  next
    case False
    show ?thesis
    proof (cases "k \<in> set (columns df)")
      case True
      show ?thesis
      proof (cases "apply_selector k v df")
        case (Inl e)
        then show ?thesis using kv False True by (simp add: without_def)
      next
        case (Inr df')
        then have "s \<notin> set (columns df')" using Cons.prems apply_selector_columns by metis
        then show ?thesis using Cons.IH [of df'] kv False True Inr by (simp add: without_def)
      qed
    next
      case nk: False
      then show ?thesis using Cons kv False by (simp add: without_def)
    qed
  qed
qed

lemma join_computer_without:
  "\<forall>t \<in> set (computed_by df cc). s \<notin> set (columns t) \<Longrightarrow>
   join_computer (without s sel) df cc = join_computer sel df cc"
  by (auto simp: join_computer_def computed_by_def filter_df_without split: sum.splits)

lemma scan_computers_without:
  "\<forall>t \<in> set (scan_computed all_names sel ccs df). s \<notin> set (columns t) \<Longrightarrow>
   scan_computers all_names (without s sel) ccs df = scan_computers all_names sel ccs df"
proof (induction ccs arbitrary: df)
  case Nil
  then show ?case by simp
next
  case (Cons cc ccs)
  show ?case
  proof (cases "applicable all_names df cc")
    case True
    have j: "join_computer (without s sel) df cc = join_computer sel df cc"
      using Cons.prems True by (intro join_computer_without) simp
    show ?thesis
    proof (cases "join_computer sel df cc")
      case (Inl e)
      then show ?thesis using True j by simp
    next
      case (Inr df')
      then have "\<forall>t \<in> set (scan_computed all_names sel ccs df'). s \<notin> set (columns t)"
        using Cons.prems True by simp
      then show ?thesis using Cons.IH [of df'] True j Inr by simp
    qed
  next
    case False
    then show ?thesis using Cons by simp
  qed
qed

lemma join_loop_without:
  "\<forall>t \<in> set (loop_computed fuel all_names sel ccs df). s \<notin> set (columns t) \<Longrightarrow>
   join_loop fuel all_names (without s sel) ccs df = join_loop fuel all_names sel ccs df"
proof (induction fuel arbitrary: df)
  case 0
  then show ?case by simp
next
  case (Suc k)
  show ?case
  proof (cases "set all_names \<subseteq> set (columns df)")
    case True
    then show ?thesis by simp
  next
    case False
    have sc: "scan_computers all_names (without s sel) ccs df = scan_computers all_names sel ccs df"
      using Suc.prems False by (intro scan_computers_without) simp
    show ?thesis
    proof (cases "scan_computers all_names sel ccs df")
      case (Inl e)
      then show ?thesis using False sc by simp
    next
      case (Inr df')
      then have "\<forall>t \<in> set (loop_computed k all_names sel ccs df'). s \<notin> set (columns t)"
        using Suc.prems False by simp
      then show ?thesis using Suc.IH [of df'] False sc Inr by simp
    qed
  qed
qed

lemma without_subset: "kv \<in> set sel \<Longrightarrow> fst kv \<noteq> s \<Longrightarrow> kv \<in> set (without s sel)"
  by (simp add: without_def)

lemma without_hashable:
  "\<forall>kv \<in> set sel. hashable py (snd kv) \<Longrightarrow> \<forall>kv \<in> set (without s sel). hashable py (snd kv)"
  by (simp add: without_def)

text \<open>
  Claim C10, as amended. When the value of the filter entry of a column is hashable, and
  the column is a column of none of the tables that the computers return during the
  resolution, \<open>get_coords\<close> returns what it returns for the filter without that entry: the
  same table, the same error, or neither.
\<close>

theorem get_coords_ignores_absent_filter_column:
  assumes "\<forall>kv \<in> set sel. fst kv = s \<longrightarrow> hashable py (snd kv)"
    and "\<forall>t \<in> set (computed_tables py limit fuel inst names sel). s \<notin> set (columns t)"
  shows "get_coords py limit fuel inst names (without s sel) = get_coords py limit fuel inst names sel"
proof (cases "\<forall>kv \<in> set sel. hashable py (snd kv)")
  case False
  then obtain kv where kv: "kv \<in> set sel" "\<not> hashable py (snd kv)" by blast
  then have "fst kv \<noteq> s" using assms(1) by blast
  then have "kv \<in> set (without s sel)" using kv(1) by (rule without_subset [rotated])
  then show ?thesis
    using kv get_coords_unhashable [of kv sel py] get_coords_unhashable [of kv "without s sel" py]
    by simp
next
  case True
  have eq: "get_coords py limit fuel inst names sel
      = get_coords_impl limit fuel inst (remdups names) sel"
    "get_coords py limit fuel inst names (without s sel)
      = get_coords_impl limit fuel inst (remdups names) (without s sel)"
    using True without_hashable [OF True, of s] by (simp_all add: get_coords_hashable)
  show ?thesis
  proof (cases "get_dependencies limit (inst_coords inst) (remdups names)")
    case (Inl e)
    then show ?thesis unfolding eq by (simp add: get_coords_impl_def)
  next
    case (Inr all_names)
    then have "\<forall>t \<in> set (loop_computed fuel all_names sel (coord_computers (db inst))
                            \<lparr>columns = [], rows = [[]]\<rparr>). s \<notin> set (columns t)"
      using assms(2) True by (simp add: computed_tables_def)
    then have "join_loop fuel all_names (without s sel) (coord_computers (db inst))
                  \<lparr>columns = [], rows = [[]]\<rparr>
             = join_loop fuel all_names sel (coord_computers (db inst))
                  \<lparr>columns = [], rows = [[]]\<rparr>"
      by (rule join_loop_without)
    then show ?thesis unfolding eq using Inr by (simp add: get_coords_impl_def del: join_loop.simps)
  qed
qed

lemma computed_items:
  "\<forall>kv \<in> set sel. hashable py (snd kv) \<Longrightarrow> join_computer sel unit_df cc_a = Inr t \<Longrightarrow>
   computed_tables py 2 1 (inst_items coe) [''a''] sel = [tab_a]"
proof -
  assume h: "\<forall>kv \<in> set sel. hashable py (snd kv)" and j: "join_computer sel unit_df cc_a = Inr t"
  have cb: "computed_by unit_df cc_a = [tab_a]"
    by (simp add: computed_by_def deps_a dd_unit compute_a)
  have app: "applicable [''a''] unit_df cc_a"
    by (simp add: applicable_def cc_fields unit_df_def)
  have sc: "scan_computed [''a''] sel [cc_a] unit_df = [tab_a]"
    using app cb j by simp
  have scs: "scan_computers [''a''] sel [cc_a] unit_df = Inr t"
    using app j by simp
  have u: "\<not> set [''a''] \<subseteq> set (columns unit_df)" by (simp add: unit_df_def)
  have "loop_computed (Suc 0) [''a''] sel [cc_a] unit_df = [tab_a]"
    using u sc scs by simp
  then show ?thesis
    using deps_items [of coe] h
    by (simp add: computed_tables_def items_fields unit_df_def)
qed

theorem get_coords_ignores_absent_filter_column_witness:
  "get_coords Py_3_12 2 1 (inst_items False) [''a''] [(''zzz'', Slice None None None)]
     = Some (Inr tab_a)"
proof -
  let ?sel = "[(''zzz'', Slice None None None)]"
  have w: "without ''zzz'' ?sel = []" by (simp add: without_def)
  have h: "\<forall>kv \<in> set ?sel. hashable Py_3_12 (snd kv)" by simp
  then have h': "\<forall>kv \<in> set ?sel. fst kv = ''zzz'' \<longrightarrow> hashable Py_3_12 (snd kv)" by simp
  have cb: "computed_by unit_df cc_a = [tab_a]"
    by (simp add: computed_by_def deps_a dd_unit compute_a)
  have "\<forall>t \<in> set (computed_by unit_df cc_a). ''zzz'' \<notin> set (columns t)"
    by (simp add: cb tab_a_def)
  then have j: "join_computer ?sel unit_df cc_a = Inr tab_a"
    using join_computer_without [of unit_df cc_a "''zzz''" ?sel] join_a by (simp add: w)
  have "computed_tables Py_3_12 2 1 (inst_items False) [''a''] ?sel = [tab_a]"
    using h j by (rule computed_items)
  then have "\<forall>t \<in> set (computed_tables Py_3_12 2 1 (inst_items False) [''a''] ?sel).
      ''zzz'' \<notin> set (columns t)"
    by (simp add: tab_a_def)
  from get_coords_ignores_absent_filter_column [OF h' this] show ?thesis
    using coords_items [where coe = False and py = Py_3_12] by (simp only: w)
qed

text \<open>
  Claim C10 as stated fails. A filter entry whose value is a list, or a slice before
  Python 3.12, cannot be hashed: \<open>get_coords\<close> raises \<open>TypeError\<close> for it although its
  column \<open>zzz\<close> is a column of no table of the resolution, and the same call without the
  entry returns the table of the three coordinates.
\<close>

theorem unhashable_filter_entry_counterexample:
  "get_coords Py_3_12 2 1 (inst_items False) [''a''] [(''zzz'', ListValue [IntV 1])]
     = Some (Inl TypeError)
   \<and> get_coords Py_3_11 2 1 (inst_items False) [''a''] [(''zzz'', Slice None None None)]
     = Some (Inl TypeError)
   \<and> computed_tables Py_3_12 2 1 (inst_items False) [''a''] [(''zzz'', ListValue [IntV 1])] = []
   \<and> get_coords Py_3_12 2 1 (inst_items False) [''a''] [] = Some (Inr tab_a)
   \<and> get_coords Py_3_11 2 1 (inst_items False) [''a''] [] = Some (Inr tab_a)
   \<and> computed_tables Py_3_12 2 1 (inst_items False) [''a''] [] = [tab_a]
   \<and> ''zzz'' \<notin> set (columns tab_a)"
proof (intro conjI)
  show "get_coords Py_3_12 2 1 (inst_items False) [''a''] [(''zzz'', ListValue [IntV 1])]
     = Some (Inl TypeError)"
    by (rule get_coords_unhashable [of "(''zzz'', ListValue [IntV 1])"]) simp_all
  show "get_coords Py_3_11 2 1 (inst_items False) [''a''] [(''zzz'', Slice None None None)]
     = Some (Inl TypeError)"
    by (rule get_coords_unhashable [of "(''zzz'', Slice None None None)"]) simp_all
  show "computed_tables Py_3_12 2 1 (inst_items False) [''a''] [(''zzz'', ListValue [IntV 1])] = []"
    by (simp add: computed_tables_def)
  show "get_coords Py_3_12 2 1 (inst_items False) [''a''] [] = Some (Inr tab_a)"
    by (rule coords_items)
  show "get_coords Py_3_11 2 1 (inst_items False) [''a''] [] = Some (Inr tab_a)"
    by (rule coords_items)
  show "computed_tables Py_3_12 2 1 (inst_items False) [''a''] [] = [tab_a]"
    by (rule computed_items [OF hashable_empty join_a])
  show "''zzz'' \<notin> set (columns tab_a)" by (simp add: tab_a_def)
qed

section \<open>A slice whose start is 0\<close>

lemma compute_neg: "compute cc_neg unit_df = Inr tab_neg"
  apply (simp add: cc_neg_def from_function_def unit_df_def)
  apply (simp add: row_simps new_f_def f_neg_def)
  apply (simp add: pd_concat_def unique_def row_simps tab_neg_def)
  done

lemma neg_fields: "coords cc_neg = [''a'']" "dependencies cc_neg = []"
  "coord_computers (db inst_neg) = [cc_neg]" "inst_coords inst_neg = [(''a'', cc_neg)]"
  by (simp_all add: cc_neg_def from_function_def inst_neg_def)

lemma init_neg: "Database_initialize (db inst_neg) = Inr inst_neg"
  by (simp add: Database_initialize_def neg_fields) (simp add: inst_neg_def)

lemma filter_neg:
  "filter_df tab_neg [(''a'', Slice (Some (IntV 0)) (Some (IntV 5)) None)] = Inr tab_neg_filtered"
  by (simp add: tab_neg_def tab_neg_filtered_def start_cond_def end_cond_def row_simps)

lemma deps_df_neg: "select_columns unit_df [] = Inr unit_df"
  by (simp add: select_columns_def unit_df_def row_simps)

lemma merge_neg: "merge unit_df tab_neg_filtered [] = Inr tab_neg_filtered"
  by (simp add: merge_def merge_columns_def merge_rows_def merge_row_def unit_df_def
      tab_neg_filtered_def row_simps)

lemma join_neg:
  "join_computer [(''a'', Slice (Some (IntV 0)) (Some (IntV 5)) None)] unit_df cc_neg
     = Inr tab_neg_filtered"
  by (simp only: join_computer_def neg_fields deps_df_neg dd_unit compute_neg filter_neg
      sum.case merge_neg)

lemma loop_neg:
  "join_loop 1 [''a''] [(''a'', Slice (Some (IntV 0)) (Some (IntV 5)) None)]
     (coord_computers (db inst_neg)) unit_df = Some (Inr tab_neg_filtered)"
proof -
  let ?sel = "[(''a'', Slice (Some (IntV 0)) (Some (IntV 5)) None)]"
  have 1: "(1::nat) = Suc 0" by simp
  have app: "applicable [''a''] unit_df cc_neg"
    by (simp add: applicable_def neg_fields unit_df_def)
  have scan: "scan_computers [''a''] ?sel [cc_neg] unit_df = Inr tab_neg_filtered"
    using app join_neg by simp
  have u: "\<not> set [''a''] \<subseteq> set (columns unit_df)" by (simp add: unit_df_def)
  have t: "set [''a''] \<subseteq> set (columns tab_neg_filtered)" by (simp add: tab_neg_filtered_def)
  have "join_loop (Suc 0) [''a''] ?sel [cc_neg] unit_df
      = join_loop 0 [''a''] ?sel [cc_neg] tab_neg_filtered"
    using u scan by (subst join_loop.simps) (simp del: join_loop.simps)
  also have "\<dots> = Some (Inr tab_neg_filtered)"
    using t by (subst join_loop.simps) (simp del: join_loop.simps)
  finally show ?thesis unfolding 1 neg_fields .
qed

lemma collapse_neg: "collapse [''a''] tab_neg_filtered = Inr tab_neg_filtered"
  apply (simp add: collapse_def tab_neg_filtered_def group_keys_def group_of_def unique_def row_simps)
  apply (simp add: keep_unique_columns_def col_unique_single row_simps)
  apply (simp add: pd_concat_def unique_def select_columns_def row_simps)
  done

lemma deps_neg: "get_dependencies 2 (inst_coords inst_neg) [''a''] = Inr [''a'']"
  by (simp add: neg_fields numeral_2_eq_2)

text \<open>
  Claim C4, on the code. With the filter \<open>a: slice(0, 5)\<close> on the coordinate \<open>a\<close> of values
  -3, 1 and 7, \<open>_filter\<close> keeps the rows of -3 and of 1, and so does \<open>get_coords\<close>
  where a slice can be hashed: the
  start 0 is false as a truth value, so no lower bound is tested, and the row of -3, which
  is below the start of the range, is returned.
\<close>

theorem slice_start_zero_not_enforced:
  "filter_df tab_neg [(''a'', Slice (Some (IntV 0)) (Some (IntV 5)) None)]
     = Inr \<lparr>columns = [''a''], rows = [[(''a'', IntV (- 3))], [(''a'', IntV 1)]]\<rparr>
   \<and> get_coords Py_3_12 2 1 inst_neg [''a''] [(''a'', Slice (Some (IntV 0)) (Some (IntV 5)) None)]
     = Some (Inr \<lparr>columns = [''a''], rows = [[(''a'', IntV (- 3))], [(''a'', IntV 1)]]\<rparr>)
   \<and> pd_ge (IntV (- 3)) (IntV 0) = Inr False"
proof (intro conjI)
  show "filter_df tab_neg [(''a'', Slice (Some (IntV 0)) (Some (IntV 5)) None)]
     = Inr \<lparr>columns = [''a''], rows = [[(''a'', IntV (- 3))], [(''a'', IntV 1)]]\<rparr>"
    using filter_neg by (simp only: tab_neg_filtered_def)
  have h: "\<forall>kv \<in> set [(''a'', Slice (Some (IntV 0)) (Some (IntV 5)) None)].
      hashable Py_3_12 (snd kv)" by simp
  show "get_coords Py_3_12 2 1 inst_neg [''a''] [(''a'', Slice (Some (IntV 0)) (Some (IntV 5)) None)]
     = Some (Inr \<lparr>columns = [''a''], rows = [[(''a'', IntV (- 3))], [(''a'', IntV 1)]]\<rparr>)"
    using get_coords_impl_eval [OF deps_neg loop_neg]
    unfolding get_coords_single [OF h]
    by (simp only: collapse_neg) (simp add: tab_neg_filtered_def)
  show "pd_ge (IntV (- 3)) (IntV 0) = Inr False" by simp
qed

end
